theory Spec2Isabelle
  imports
    Main
    "HOL-Library.Word"
    "HOL-Library.AList"
    "HOL-Library.Multiset"
    "HOL-Library.Char_ord"
    "HOL-Library.List_Lexorder"
begin

section \<open>Data model\<close>

text \<open>
  The program is one Go file, \<^verbatim>\<open>prometheus-elb-discovery.go\<close>. Its inputs are the
  structs of the AWS SDK, in which every field is a pointer. A pointer-typed field is
  an \<open>option\<close> here and dereferencing \<open>None\<close> is the run-time panic Go raises.
  Slice elements (\<^verbatim>\<open>[]*ec2.Instance\<close>, \<^verbatim>\<open>[]*ec2.Tag\<close>,
  \<^verbatim>\<open>[]*elb.InstanceState\<close>) are taken to be non-nil. Only the fields the program
  reads are kept. Go strings are byte sequences: \<open>string\<close>.
\<close>

datatype panic = NilDereference | IndexOutOfRange

text \<open>
  A function of the program ends in one of three ways: it returns, it panics, or it
  calls \<^verbatim>\<open>log.Fatal\<close>, which prints the message and exits the process.
\<close>

datatype failure = Panic panic | Fatal string

type_synonym 'a result = "failure + 'a"

section \<open>Tag filter spec\<close>

record Tag =
  Key :: string
  FilterName :: string
  FilterValue :: string

text \<open>
  \<^verbatim>\<open>strings.Split(s, sep)\<close> for a separator of one byte, as the library documents it:
  the substrings between the separators, one more than there are separators. The
  result is never empty; the first case of the inner \<open>case\<close> is unreachable.
\<close>

fun Split :: "string \<Rightarrow> char \<Rightarrow> string list" where
  "Split [] sep = [[]]"
| "Split (c # cs) sep =
     (if c = sep then [] # Split cs sep
      else (case Split cs sep of [] \<Rightarrow> [[c]] | f # fs \<Rightarrow> (c # f) # fs))"

text \<open>The body of the loop of \<^verbatim>\<open>parseTags\<close> (lines 146 to 162), for one field.\<close>

definition parseTag :: "string \<Rightarrow> Tag result" where
  "parseTag t =
     (case Split t (CHR ''='') of
        [p0] \<Rightarrow> Inr \<lparr>Key = t, FilterName = ''tag-key'', FilterValue = t\<rparr>
      | [p0, p1] \<Rightarrow> Inr \<lparr>Key = p0, FilterName = ''tag:'' @ p0, FilterValue = p1\<rparr>
      | _ \<Rightarrow> Inl (Fatal (''Unrecognized tag filter '' @ t)))"

text \<open>
  The loop fills \<^verbatim>\<open>tags[i]\<close> for the fields in order; \<^verbatim>\<open>log.Fatalf\<close> ends the
  process at the first field it refuses.
\<close>

fun parseTags_loop :: "string list \<Rightarrow> Tag list result" where
  "parseTags_loop [] = Inr []"
| "parseTags_loop (t # flds) =
     (case parseTag t of
        Inl e \<Rightarrow> Inl e
      | Inr tag \<Rightarrow>
          (case parseTags_loop flds of
             Inl e \<Rightarrow> Inl e
           | Inr tags \<Rightarrow> Inr (tag # tags)))"

text \<open>\<^verbatim>\<open>parseTags\<close> (lines 139 to 165).\<close>

definition parseTags :: "string \<Rightarrow> Tag list result" where
  "parseTags tagsRaw =
     (let flds = Split tagsRaw (CHR '','') in
      if hd flds = '''' \<and> length flds = 1 then Inr []
      else parseTags_loop flds)"

text \<open>
  \<^verbatim>\<open>Tags.Keys\<close> (lines 167 to 177). \<^verbatim>\<open>seen\<close> is a \<^verbatim>\<open>map[string]bool\<close> that is only
  looked up: a key it does not hold reads as \<^verbatim>\<open>false\<close>.
\<close>

fun Keys_loop :: "Tag list \<Rightarrow> (string \<Rightarrow> bool) \<Rightarrow> string list \<Rightarrow> string list" where
  "Keys_loop [] seen keys = keys"
| "Keys_loop (t # tags) seen keys =
     (if \<not> seen (Key t) then Keys_loop tags (seen(Key t := True)) (keys @ [Key t])
      else Keys_loop tags seen keys)"

definition Keys :: "Tag list \<Rightarrow> string list" where
  "Keys tags = Keys_loop tags (\<lambda>k. False) []"

section \<open>The records of the AWS SDK\<close>

text \<open>
  The tag of the SDK has a field \<open>Key\<close> as the selector of the program has. From here
  on \<open>Key\<close> is the field of the SDK's tag and \<open>Tag.Key\<close> that of the selector.
\<close>

record elb_InstanceState =
  elb_InstanceId :: "string option"
  elb_State :: "string option"

record ec2_Tag =
  Key :: "string option"
  Value :: "string option"

record ec2_InstanceState =
  Code :: "64 word option"

record ec2_Instance =
  InstanceId :: "string option"
  PrivateIpAddress :: "string option"
  State :: "ec2_InstanceState option"
  Tags :: "ec2_Tag list"

record ec2_Reservation =
  Instances :: "ec2_Instance list"

text \<open>
  A Go map that is iterated is an association list with distinct keys; the order in
  which \<^verbatim>\<open>range\<close> yields its keys is not specified by the language and is a
  parameter of the model (see \<open>range_order\<close>).
\<close>

record TargetGroup =
  Targets :: "string list"
  Labels :: "(string \<times> string) list"

section \<open>Grouping engine\<close>

text \<open>\<^verbatim>\<open>getTag\<close> (lines 55 to 62): the value of the first tag with the key, or the empty string.\<close>

fun getTag_loop :: "ec2_Tag list \<Rightarrow> string \<Rightarrow> string result" where
  "getTag_loop [] key = Inr ''''"
| "getTag_loop (t # ts) key =
     (case Key t of
        None \<Rightarrow> Inl (Panic NilDereference)
      | Some k \<Rightarrow>
          if k = key then
            (case Value t of
               None \<Rightarrow> Inl (Panic NilDereference)
             | Some v \<Rightarrow> Inr v)
          else getTag_loop ts key)"

definition getTag :: "ec2_Instance \<Rightarrow> string \<Rightarrow> string result" where
  "getTag inst key = getTag_loop (Tags inst) key"

text \<open>\<^verbatim>\<open>fmt.Sprintf("%d", port)\<close>: the decimal digits of a Go \<^verbatim>\<open>int\<close>.\<close>

definition digit :: "nat \<Rightarrow> char" where
  "digit n = ''0123456789'' ! n"

fun decimal :: "nat \<Rightarrow> string" where
  "decimal n = (if n < 10 then [digit n] else decimal (n div 10) @ [digit (n mod 10)])"

declare decimal.simps [simp del]

definition format_int :: "int \<Rightarrow> string" where
  "format_int i = (if i < 0 then CHR ''-'' # decimal (nat (- i)) else decimal (nat i))"

text \<open>
  The key of an instance (lines 72 to 75): the loop
  \<^verbatim>\<open>key = fmt.Sprintf("%s|%s=%s", key, tagKey, getTag(*instance, tagKey))\<close>.
\<close>

fun groupKey :: "ec2_Instance \<Rightarrow> string list \<Rightarrow> string \<Rightarrow> string result" where
  "groupKey inst [] key = Inr key"
| "groupKey inst (tagKey # tags) key =
     (case getTag inst tagKey of
        Inl e \<Rightarrow> Inl e
      | Inr v \<Rightarrow> groupKey inst tags (key @ ''|'' @ tagKey @ ''='' @ v))"

text \<open>The labels of a new group (lines 79 to 85).\<close>

fun newLabels ::
  "ec2_Instance \<Rightarrow> string list \<Rightarrow> (string \<times> string) list \<Rightarrow> (string \<times> string) list result" where
  "newLabels inst [] labels = Inr labels"
| "newLabels inst (tagKey # tags) labels =
     (case getTag inst tagKey of
        Inl e \<Rightarrow> Inl e
      | Inr tagVal \<Rightarrow>
          newLabels inst tags
            (if tagVal \<noteq> '''' then AList.update tagKey tagVal labels else labels))"

text \<open>One iteration of the loop over the instances (lines 68 to 94).\<close>

definition groupByTags_body ::
  "int \<Rightarrow> string list \<Rightarrow> (string \<times> TargetGroup) list \<Rightarrow> ec2_Instance
     \<Rightarrow> (string \<times> TargetGroup) list result" where
  "groupByTags_body port tags targetGroups inst =
     (case State inst of
        None \<Rightarrow> Inl (Panic NilDereference)
      | Some st \<Rightarrow>
     (case Code st of
        None \<Rightarrow> Inl (Panic NilDereference)
      | Some c \<Rightarrow>
          if c \<noteq> 16 then Inr targetGroups
          else
     (case groupKey inst tags '''' of
        Inl e \<Rightarrow> Inl e
      | Inr key \<Rightarrow>
     (case (case map_of targetGroups key of
              Some tg \<Rightarrow> Inr tg
            | None \<Rightarrow>
                (case newLabels inst tags [] of
                   Inl e \<Rightarrow> Inl e
                 | Inr labels \<Rightarrow> Inr \<lparr>Targets = [], Labels = labels\<rparr>)) of
        Inl e \<Rightarrow> Inl e
      | Inr targetGroup \<Rightarrow>
     (case PrivateIpAddress inst of
        None \<Rightarrow> Inl (Panic NilDereference)
      | Some addr \<Rightarrow>
          Inr (AList.update key
                 (targetGroup\<lparr>Targets := Targets targetGroup @ [addr @ '':'' @ format_int port]\<rparr>)
                 targetGroups))))))"

fun groupByTags_loop ::
  "int \<Rightarrow> string list \<Rightarrow> (string \<times> TargetGroup) list \<Rightarrow> ec2_Instance list
     \<Rightarrow> (string \<times> TargetGroup) list result" where
  "groupByTags_loop port tags targetGroups [] = Inr targetGroups"
| "groupByTags_loop port tags targetGroups (inst # instances) =
     (case groupByTags_body port tags targetGroups inst of
        Inl e \<Rightarrow> Inl e
      | Inr targetGroups' \<Rightarrow> groupByTags_loop port tags targetGroups' instances)"

text \<open>\<^verbatim>\<open>groupByTags\<close> (lines 64 to 98); \<open>port\<close> is the global set from the flags.\<close>

definition groupByTags ::
  "int \<Rightarrow> ec2_Instance list \<Rightarrow> string list \<Rightarrow> (string \<times> TargetGroup) list result" where
  "groupByTags port instances tags = groupByTags_loop port tags [] instances"

section \<open>Health filter\<close>

text \<open>\<^verbatim>\<open>filterHealthyInstances\<close> (lines 43 to 53). The identifiers are copied as pointers.\<close>

fun filterHealthyInstances_loop ::
  "elb_InstanceState list \<Rightarrow> string option list \<Rightarrow> string option list result" where
  "filterHealthyInstances_loop [] healthyInstances = Inr healthyInstances"
| "filterHealthyInstances_loop (inst # states) healthyInstances =
     (case elb_State inst of
        None \<Rightarrow> Inl (Panic NilDereference)
      | Some st \<Rightarrow>
          if st = ''InService'' then
            filterHealthyInstances_loop states (healthyInstances @ [elb_InstanceId inst])
          else filterHealthyInstances_loop states healthyInstances)"

definition filterHealthyInstances :: "elb_InstanceState list \<Rightarrow> string option list result" where
  "filterHealthyInstances InstanceStates = filterHealthyInstances_loop InstanceStates []"

section \<open>Key discovery\<close>

text \<open>\<^verbatim>\<open>flattenReservations\<close> (lines 131 to 137).\<close>

definition flattenReservations :: "ec2_Reservation list \<Rightarrow> ec2_Instance list" where
  "flattenReservations reservations = concat (map Instances reservations)"

text \<open>
  The order in which \<^verbatim>\<open>range\<close> yields the keys of a map is chosen by the Go run time.
  It is a parameter \<open>ord\<close> of every function that ranges over a map: \<open>ord\<close> takes the keys
  of the association list and gives them back in the order of this iteration. A
  \<open>range_order\<close> gives every key exactly as often as it got it.
\<close>

definition range_order :: "(string list \<Rightarrow> string list) \<Rightarrow> bool" where
  "range_order ord = (\<forall>ks. mset (ord ks) = mset ks)"

text \<open>\<^verbatim>\<open>allTagKeys\<close> (lines 179 to 192): the set of the tag keys, then its sorted keys.\<close>

fun tagSet_tags :: "ec2_Tag list \<Rightarrow> (string \<times> unit) list \<Rightarrow> (string \<times> unit) list result" where
  "tagSet_tags [] tagSet = Inr tagSet"
| "tagSet_tags (t # ts) tagSet =
     (case ec2_Tag.Key t of
        None \<Rightarrow> Inl (Panic NilDereference)
      | Some k \<Rightarrow> tagSet_tags ts (AList.update k () tagSet))"

fun tagSet_instances ::
  "ec2_Instance list \<Rightarrow> (string \<times> unit) list \<Rightarrow> (string \<times> unit) list result" where
  "tagSet_instances [] tagSet = Inr tagSet"
| "tagSet_instances (inst # instances) tagSet =
     (case tagSet_tags (Tags inst) tagSet of
        Inl e \<Rightarrow> Inl e
      | Inr tagSet' \<Rightarrow> tagSet_instances instances tagSet')"

definition allTagKeys :: "(string list \<Rightarrow> string list) \<Rightarrow> ec2_Instance list \<Rightarrow> string list result" where
  "allTagKeys ord instances =
     (case tagSet_instances instances [] of
        Inl e \<Rightarrow> Inl e
      | Inr tagSet \<Rightarrow> Inr (sort (ord (map fst tagSet))))"

section \<open>Serializer\<close>

text \<open>
  \<^verbatim>\<open>marshalTargetGroups\<close> (lines 100 to 117). \<^verbatim>\<open>json.MarshalIndent\<close> belongs to the Go
  library: it is the parameter \<open>enc\<close>, called with the value, the prefix and the indent.
  \<^verbatim>\<open>tgList\<close> is a slice of pointers; looking up a key the map does not hold gives nil.
  \<^verbatim>\<open>sort.Strings\<close> sorts in increasing byte-wise order, the order of \<open>string\<close> here.
\<close>

type_synonym encoder = "TargetGroup option list \<Rightarrow> string \<Rightarrow> string \<Rightarrow> string + string"

definition marshalTargetGroups ::
  "encoder \<Rightarrow> (string list \<Rightarrow> string list) \<Rightarrow> (string \<times> TargetGroup) list \<Rightarrow> string result" where
  "marshalTargetGroups enc ord targetGroups =
     (let keys = sort (ord (map fst targetGroups));
          tgList = map (map_of targetGroups) keys
      in case enc tgList '''' ''  '' of
           Inl err \<Rightarrow> Inl (Fatal err)
         | Inr b \<Rightarrow> Inr b)"

section \<open>Publisher\<close>

text \<open>
  The file system is a map from path to content, and standard output is the bytes
  written so far. Two paths name the same file only if they are the same string. What
  the operating system answers to a call is an input of the model. A write that fails
  may leave anything at its path; a rename that fails changes nothing; a rename that
  succeeds moves the content in one step.
\<close>

record World =
  files :: "string \<Rightarrow> string option"
  stdout :: string
  log :: "string list"

datatype write_answer = WriteOk | WriteFails string "string option"

datatype rename_answer = RenameOk | RenameFails string

datatype stdout_answer = StdoutOk | StdoutFails string nat

definition ioutil_WriteFile ::
  "write_answer \<Rightarrow> string \<Rightarrow> string \<Rightarrow> World \<Rightarrow> World \<times> string option" where
  "ioutil_WriteFile ans filename data w =
     (case ans of
        WriteOk \<Rightarrow> (w\<lparr>files := (files w)(filename \<mapsto> data)\<rparr>, None)
      | WriteFails err left \<Rightarrow> (w\<lparr>files := (files w)(filename := left)\<rparr>, Some err))"

definition os_Rename ::
  "rename_answer \<Rightarrow> string \<Rightarrow> string \<Rightarrow> World \<Rightarrow> World \<times> string option" where
  "os_Rename ans oldpath newpath w =
     (case ans of
        RenameFails err \<Rightarrow> (w, Some err)
      | RenameOk \<Rightarrow>
          (case files w oldpath of
             None \<Rightarrow> (w, Some ''no such file or directory'')
           | Some data \<Rightarrow> (w\<lparr>files := (files w)(oldpath := None, newpath \<mapsto> data)\<rparr>, None)))"

definition os_Stdout_Write :: "stdout_answer \<Rightarrow> string \<Rightarrow> World \<Rightarrow> World \<times> string option" where
  "os_Stdout_Write ans b w =
     (case ans of
        StdoutOk \<Rightarrow> (w\<lparr>stdout := stdout w @ b\<rparr>, None)
      | StdoutFails err n \<Rightarrow> (w\<lparr>stdout := stdout w @ take n b\<rparr>, Some err))"

text \<open>\<^verbatim>\<open>atomicWriteFile\<close> (lines 119 to 129).\<close>

definition atomicWriteFile ::
  "write_answer \<Rightarrow> rename_answer \<Rightarrow> string \<Rightarrow> string \<Rightarrow> string \<Rightarrow> World
     \<Rightarrow> World \<times> string option" where
  "atomicWriteFile wans rans filename data tmpSuffix w =
     (case ioutil_WriteFile wans (filename @ tmpSuffix) data w of
        (w1, Some err) \<Rightarrow> (w1, Some err)
      | (w1, None) \<Rightarrow>
          (case os_Rename rans (filename @ tmpSuffix) filename w1 of
             (w2, Some err) \<Rightarrow> (w2, Some err)
           | (w2, None) \<Rightarrow> (w2, None)))"

section \<open>The program\<close>

text \<open>
  What \<^verbatim>\<open>main\<close> gets from outside: the values of the flags once \<^verbatim>\<open>flag.Parse\<close> has
  read them, and the answers of the environment: of the AWS services to the three
  requests, of the Go run time when a map is ranged over, of \<^verbatim>\<open>json.MarshalIndent\<close>
  and of the operating system. An error of the SDK is its message.
\<close>

record Flags =
  flag_port :: int
  flag_dest :: string
  flag_region :: string
  flag_elb :: string
  flag_tags :: string

record elb_Instance =
  elb_Instance_InstanceId :: "string option"

record Env =
  NewSession_elb :: "string option"
  NewSession_ec2 :: "string option"
  DescribeLoadBalancers :: "string \<Rightarrow> string \<Rightarrow> string + elb_Instance list list"
  DescribeInstanceHealth ::
    "string \<Rightarrow> string \<Rightarrow> elb_Instance list \<Rightarrow> string + elb_InstanceState list"
  DescribeInstances :: "string \<Rightarrow> string option list \<Rightarrow> string + ec2_Reservation list"
  range_tagSet :: "string list \<Rightarrow> string list"
  range_targetGroups :: "string list \<Rightarrow> string list"
  json_MarshalIndent :: encoder
  write_ans :: write_answer
  rename_ans :: rename_answer
  stdout_ans :: stdout_answer

text \<open>The requests sent to the services, each with the region of its client.\<close>

datatype event =
    DescribeLoadBalancersCall string string
  | DescribeInstanceHealthCall string string "elb_Instance list"
  | DescribeInstancesCall string "string option list"

datatype exit = Returned | Exit1 | Panicked panic

record Run =
  calls :: "event list"
  world :: World
  status :: exit

text \<open>
  \<^verbatim>\<open>log.Fatal\<close> and \<^verbatim>\<open>log.Println\<close> write the message to the log (its time stamp is
  left out); \<^verbatim>\<open>fmt.Println\<close> writes to standard output.
\<close>

definition fail :: "event list \<Rightarrow> World \<Rightarrow> failure \<Rightarrow> Run" where
  "fail evs w f =
     (case f of
        Fatal msg \<Rightarrow> \<lparr>calls = evs, world = w\<lparr>log := log w @ [msg]\<rparr>, status = Exit1\<rparr>
      | Panic p \<Rightarrow> \<lparr>calls = evs, world = w, status = Panicked p\<rparr>)"

definition println :: "string \<Rightarrow> World \<Rightarrow> World" where
  "println s w = w\<lparr>stdout := stdout w @ s @ ''\<newline>''\<rparr>"

text \<open>Lines 295 to 301 of \<^verbatim>\<open>main\<close>: from the instances to the document.\<close>

definition discover :: "Env \<Rightarrow> int \<Rightarrow> Tag list \<Rightarrow> ec2_Instance list \<Rightarrow> string result" where
  "discover env port tags instances =
     (case (if length (Keys tags) = 0 then allTagKeys (range_tagSet env) instances
            else Inr (Keys tags)) of
        Inl e \<Rightarrow> Inl e
      | Inr tagKeys \<Rightarrow>
          (case groupByTags port instances tagKeys of
             Inl e \<Rightarrow> Inl e
           | Inr targetGroups \<Rightarrow>
               marshalTargetGroups (json_MarshalIndent env) (range_targetGroups env)
                 targetGroups))"

text \<open>Lines 302 to 309 of \<^verbatim>\<open>main\<close>: the document goes to standard output or to the file.\<close>

definition publish :: "Env \<Rightarrow> string \<Rightarrow> string \<Rightarrow> World \<Rightarrow> World \<times> exit" where
  "publish env dest b w =
     (case (if dest = ''-'' then os_Stdout_Write (stdout_ans env) b w
            else atomicWriteFile (write_ans env) (rename_ans env) dest b ''.new'' w) of
        (w', Some err) \<Rightarrow> (w'\<lparr>log := log w' @ [err]\<rparr>, Exit1)
      | (w', None) \<Rightarrow> (w', Returned))"

text \<open>
  \<^verbatim>\<open>initFlags\<close> and \<^verbatim>\<open>main\<close> (lines 194 to 310). The client of the load balancer
  service is made for the region of the flag, that of the inventory service for
  \<^verbatim>\<open>us-east-1\<close>.
\<close>

definition main :: "Flags \<Rightarrow> Env \<Rightarrow> World \<Rightarrow> Run" where
  "main fl env w =
     (case parseTags (flag_tags fl) of
        Inl f \<Rightarrow> fail [] w f
      | Inr tags \<Rightarrow>
     (case NewSession_elb env of
        Some err \<Rightarrow>
          \<lparr>calls = [], world = println (''failed to create session, '' @ err) w, status = Returned\<rparr>
      | None \<Rightarrow>
     (let ev1 = [DescribeLoadBalancersCall (flag_region fl) (flag_elb fl)] in
      case DescribeLoadBalancers env (flag_region fl) (flag_elb fl) of
        Inl err \<Rightarrow> \<lparr>calls = ev1, world = println err w, status = Returned\<rparr>
      | Inr descriptions \<Rightarrow>
     (case descriptions of
        [] \<Rightarrow> fail ev1 w (Panic IndexOutOfRange)
      | unCheckedInstances # _ \<Rightarrow>
     (let ev2 = ev1 @ [DescribeInstanceHealthCall (flag_region fl) (flag_elb fl) unCheckedInstances] in
      case DescribeInstanceHealth env (flag_region fl) (flag_elb fl) unCheckedInstances of
        Inl err \<Rightarrow> \<lparr>calls = ev2, world = println err w, status = Returned\<rparr>
      | Inr states \<Rightarrow>
     (case filterHealthyInstances states of
        Inl f \<Rightarrow> fail ev2 w f
      | Inr healthyInstances \<Rightarrow>
     (case NewSession_ec2 env of
        Some txt \<Rightarrow>
          \<lparr>calls = ev2, world = println (''failed to create session, '' @ txt) w, status = Returned\<rparr>
      | None \<Rightarrow>
     (let ev3 = ev2 @ [DescribeInstancesCall ''us-east-1'' healthyInstances] in
      case DescribeInstances env ''us-east-1'' healthyInstances of
        Inl err \<Rightarrow> \<lparr>calls = ev3, world = w\<lparr>log := log w @ [err]\<rparr>, status = Returned\<rparr>
      | Inr reservations \<Rightarrow>
     (case discover env (flag_port fl) tags (flattenReservations reservations) of
        Inl f \<Rightarrow> fail ev3 w f
      | Inr b \<Rightarrow>
     (case publish env (flag_dest fl) b w of
        (w', st) \<Rightarrow> \<lparr>calls = ev3, world = w', status = st\<rparr>))))))))))"

section \<open>A reference encoder\<close>

text \<open>
  The examples need an encoder to run. This one lays a list of target groups out as
  \<^verbatim>\<open>encoding/json\<close> documents it for \<^verbatim>\<open>MarshalIndent\<close>: every element of an array or
  object on a line of its own, after the prefix and one indent for each level of
  nesting; an empty array or object without a line break; the keys of a map sorted; the
  fields of the struct in the order of its declaration, under the names of their
  \<^verbatim>\<open>json\<close> tags. Of the string escapes only those of the quote and the backslash are
  modelled. The theorems hold for every encoder; this one is for the examples only.
\<close>

fun join :: "string \<Rightarrow> string list \<Rightarrow> string" where
  "join sep [] = []"
| "join sep [x] = x"
| "join sep (x # y # ys) = x @ sep @ join sep (y # ys)"

definition json_newline :: "string \<Rightarrow> string \<Rightarrow> nat \<Rightarrow> string" where
  "json_newline prefix indent d = ''\<newline>'' @ prefix @ concat (replicate d indent)"

definition json_quote :: "string \<Rightarrow> string" where
  "json_quote s =
     [CHR 0x22] @
     concat (map (\<lambda>c. if c = CHR 0x22 then [CHR 0x5C, CHR 0x22]
                       else if c = CHR 0x5C then [CHR 0x5C, CHR 0x5C] else [c]) s) @
     [CHR 0x22]"

definition json_array :: "string \<Rightarrow> string \<Rightarrow> nat \<Rightarrow> string list \<Rightarrow> string" where
  "json_array prefix indent d items =
     (if items = [] then ''[]''
      else ''['' @ json_newline prefix indent (d + 1) @
           join ('','' @ json_newline prefix indent (d + 1)) items @
           json_newline prefix indent d @ '']'')"

definition json_object :: "string \<Rightarrow> string \<Rightarrow> nat \<Rightarrow> (string \<times> string) list \<Rightarrow> string" where
  "json_object prefix indent d entries =
     (if entries = [] then ''{}''
      else ''{'' @ json_newline prefix indent (d + 1) @
           join ('','' @ json_newline prefix indent (d + 1))
             (map (\<lambda>(k, v). json_quote k @ '': '' @ v) entries) @
           json_newline prefix indent d @ ''}'')"

definition json_TargetGroup :: "string \<Rightarrow> string \<Rightarrow> nat \<Rightarrow> TargetGroup option \<Rightarrow> string" where
  "json_TargetGroup prefix indent d tg =
     (case tg of
        None \<Rightarrow> ''null''
      | Some g \<Rightarrow>
          json_object prefix indent d
            [(''targets'', json_array prefix indent (d + 1) (map json_quote (Targets g))),
             (''labels'', json_object prefix indent (d + 1)
                (map (\<lambda>(k, v). (k, json_quote v)) (sort_key fst (Labels g))))])"

definition reference_MarshalIndent :: encoder where
  "reference_MarshalIndent tgList prefix indent =
     Inr (json_array prefix indent 0 (map (json_TargetGroup prefix indent 1) tgList))"

section \<open>Notions the statements use\<close>

text \<open>
  These definitions are not code of the program; the theorems below state what the
  program does in their terms. An instance is Running when its state code is 16.
\<close>

definition isRunning :: "ec2_Instance \<Rightarrow> bool" where
  "isRunning inst = (case State inst of None \<Rightarrow> False | Some st \<Rightarrow> Code st = Some 16)"

text \<open>The target of an instance: its private address, a colon and the port.\<close>

definition targetOf :: "int \<Rightarrow> ec2_Instance \<Rightarrow> string option" where
  "targetOf port inst = map_option (\<lambda>addr. addr @ '':'' @ format_int port) (PrivateIpAddress inst)"

text \<open>The Running instances of a list that have a given signature, in the order of the list.\<close>

definition members :: "string list \<Rightarrow> string \<Rightarrow> ec2_Instance list \<Rightarrow> ec2_Instance list" where
  "members tags s instances = filter (\<lambda>inst. isRunning inst \<and> groupKey inst tags '''' = Inr s) instances"

text \<open>The targets of all groups of a map, one after the other.\<close>

definition allTargets :: "(string \<times> TargetGroup) list \<Rightarrow> string list" where
  "allTargets tgs = concat (map (\<lambda>(s, g). Targets g) tgs)"

text \<open>
  The labels an instance gives: every selector key for which its tag value is not empty,
  with that value.
\<close>

definition labelsOf :: "string list \<Rightarrow> ec2_Instance \<Rightarrow> string \<Rightarrow> string option" where
  "labelsOf tags inst k =
     (if k \<in> set tags then
        (case getTag inst k of Inl e \<Rightarrow> None | Inr v \<Rightarrow> if v = [] then None else Some v)
      else None)"

text \<open>No tag value of the instance under a selector key holds the separator \<open>|\<close>.\<close>

definition bar_free :: "string list \<Rightarrow> ec2_Instance \<Rightarrow> bool" where
  "bar_free tags inst = (\<forall>k\<in>set tags. \<forall>v. getTag inst k = Inr v \<longrightarrow> CHR ''|'' \<notin> set v)"

text \<open>The fields of a tag spec: the empty spec has none.\<close>

definition fieldsOf :: "string \<Rightarrow> string list" where
  "fieldsOf tagsRaw = (if tagsRaw = '''' then [] else Split tagsRaw (CHR '',''))"

text \<open>The tag keys that occur on the instances of a list.\<close>

definition tagKeysOf :: "ec2_Instance list \<Rightarrow> string set" where
  "tagKeysOf instances =
     set (concat (map (\<lambda>inst. List.map_filter ec2_Tag.Key (Tags inst)) instances))"

text \<open>The directory of a path: the path up to its last slash.\<close>

definition dirname :: "string \<Rightarrow> string" where
  "dirname p = rev (dropWhile (\<lambda>c. c \<noteq> CHR ''/'') (rev p))"

section \<open>Examples\<close>

text \<open>
  The inputs the theorems are run on: instances A and B of the scenario of the
  specification, a third Running instance, a stopped one without an address, one with
  an empty tag value, the states the load balancer reports, and an environment in which
  every call succeeds.
\<close>

definition ex_A :: ec2_Instance where
  "ex_A = \<lparr>InstanceId = Some ''i-a'', PrivateIpAddress = Some ''10.0.0.1'',
     State = Some \<lparr>Code = Some 16\<rparr>,
     Tags = [\<lparr>Key = Some ''Environment'', Value = Some ''prod''\<rparr>]\<rparr>"

definition ex_B :: ec2_Instance where
  "ex_B = \<lparr>InstanceId = Some ''i-b'', PrivateIpAddress = Some ''10.0.0.2'',
     State = Some \<lparr>Code = Some 16\<rparr>,
     Tags = [\<lparr>Key = Some ''Environment'', Value = Some ''stage''\<rparr>]\<rparr>"

definition ex_C :: ec2_Instance where
  "ex_C = \<lparr>InstanceId = Some ''i-c'', PrivateIpAddress = Some ''10.0.0.3'',
     State = Some \<lparr>Code = Some 16\<rparr>,
     Tags = [\<lparr>Key = Some ''Name'', Value = Some ''web''\<rparr>,
             \<lparr>Key = Some ''Environment'', Value = Some ''prod''\<rparr>]\<rparr>"

definition ex_stopped :: ec2_Instance where
  "ex_stopped = \<lparr>InstanceId = Some ''i-s'', PrivateIpAddress = None,
     State = Some \<lparr>Code = Some 80\<rparr>,
     Tags = [\<lparr>Key = Some ''Environment'', Value = Some ''prod''\<rparr>]\<rparr>"

definition ex_groups :: "(string \<times> TargetGroup) list" where
  "ex_groups =
     [(''|Environment=prod'',
        \<lparr>Targets = [''10.0.0.1:80'', ''10.0.0.3:80''], Labels = [(''Environment'', ''prod'')]\<rparr>),
      (''|Environment=stage'',
        \<lparr>Targets = [''10.0.0.2:80''], Labels = [(''Environment'', ''stage'')]\<rparr>)]"

definition ex_D :: ec2_Instance where
  "ex_D = \<lparr>InstanceId = Some ''i-d'', PrivateIpAddress = Some ''10.0.0.4'',
     State = Some \<lparr>Code = Some 16\<rparr>,
     Tags = [\<lparr>Key = Some ''Name'', Value = Some ''''\<rparr>,
             \<lparr>Key = Some ''Environment'', Value = Some ''prod''\<rparr>]\<rparr>"

definition ex_states :: "elb_InstanceState list" where
  "ex_states =
     [\<lparr>elb_InstanceId = Some ''i-a'', elb_State = Some ''InService''\<rparr>,
      \<lparr>elb_InstanceId = Some ''i-x'', elb_State = Some ''OutOfService''\<rparr>,
      \<lparr>elb_InstanceId = Some ''i-y'', elb_State = Some ''inservice''\<rparr>,
      \<lparr>elb_InstanceId = Some ''i-z'', elb_State = Some ''InService ''\<rparr>,
      \<lparr>elb_InstanceId = Some ''i-b'', elb_State = Some ''InService''\<rparr>]"

definition ex_flags :: Flags where
  "ex_flags = \<lparr>flag_port = 80, flag_dest = ''-'', flag_region = ''us-west-2'',
     flag_elb = ''my-elb'', flag_tags = ''Environment''\<rparr>"

definition ex_world :: World where
  "ex_world = \<lparr>files = Map.empty, stdout = '''', log = []\<rparr>"

definition ex_env :: Env where
  "ex_env =
     \<lparr>NewSession_elb = None, NewSession_ec2 = None,
      DescribeLoadBalancers = (\<lambda>region name.
        Inr [[\<lparr>elb_Instance_InstanceId = Some ''i-a''\<rparr>, \<lparr>elb_Instance_InstanceId = Some ''i-x''\<rparr>,
              \<lparr>elb_Instance_InstanceId = Some ''i-y''\<rparr>, \<lparr>elb_Instance_InstanceId = Some ''i-z''\<rparr>,
              \<lparr>elb_Instance_InstanceId = Some ''i-b''\<rparr>]]),
      DescribeInstanceHealth = (\<lambda>region name instances. Inr ex_states),
      DescribeInstances = (\<lambda>region ids. Inr [\<lparr>Instances = [ex_A]\<rparr>, \<lparr>Instances = [ex_B]\<rparr>]),
      range_tagSet = rev, range_targetGroups = rev,
      json_MarshalIndent = reference_MarshalIndent,
      write_ans = WriteOk, rename_ans = RenameOk, stdout_ans = StdoutOk\<rparr>"

definition ex_team :: ec2_Instance where
  "ex_team = \<lparr>InstanceId = Some ''i-t'', PrivateIpAddress = Some ''10.0.1.1'',
     State = Some \<lparr>Code = Some 16\<rparr>,
     Tags = [\<lparr>ec2_Tag.Key = Some ''Team'', Value = Some ''x''\<rparr>]\<rparr>"

definition ex_region :: ec2_Instance where
  "ex_region = \<lparr>InstanceId = Some ''i-r'', PrivateIpAddress = Some ''10.0.1.2'',
     State = Some \<lparr>Code = Some 16\<rparr>,
     Tags = [\<lparr>ec2_Tag.Key = Some ''Region'', Value = Some ''y''\<rparr>]\<rparr>"

definition ex_web_db :: "(string \<times> TargetGroup) list" where
  "ex_web_db =
     [(''|Name=web'', \<lparr>Targets = [''10.0.0.1:80'', ''10.0.0.3:80''], Labels = [(''Name'', ''web'')]\<rparr>),
      (''|Name=db'', \<lparr>Targets = [''10.0.0.2:80''], Labels = [(''Name'', ''db'')]\<rparr>)]"

definition ex_web_db_document :: string where
  \<open>ex_web_db_document = join ''\<newline>''
     [''['',
      ''  {'',
      ''    "targets": ['',
      ''      "10.0.0.2:80"'',
      ''    ],'',
      ''    "labels": {'',
      ''      "Name": "db"'',
      ''    }'',
      ''  },'',
      ''  {'',
      ''    "targets": ['',
      ''      "10.0.0.1:80",'',
      ''      "10.0.0.3:80"'',
      ''    ],'',
      ''    "labels": {'',
      ''      "Name": "web"'',
      ''    }'',
      ''  }'',
      '']'']\<close>

definition ex_document :: string where
  \<open>ex_document = join ''\<newline>''
     [''['',
      ''  {'',
      ''    "targets": ['',
      ''      "10.0.0.1:80"'',
      ''    ],'',
      ''    "labels": {'',
      ''      "Environment": "prod"'',
      ''    }'',
      ''  },'',
      ''  {'',
      ''    "targets": ['',
      ''      "10.0.0.2:80"'',
      ''    ],'',
      ''    "labels": {'',
      ''      "Environment": "stage"'',
      ''    }'',
      ''  }'',
      '']'']\<close>

definition ex_calls :: "event list" where
  "ex_calls =
     [DescribeLoadBalancersCall ''us-west-2'' ''my-elb'',
      DescribeInstanceHealthCall ''us-west-2'' ''my-elb''
        [\<lparr>elb_Instance_InstanceId = Some ''i-a''\<rparr>, \<lparr>elb_Instance_InstanceId = Some ''i-x''\<rparr>,
         \<lparr>elb_Instance_InstanceId = Some ''i-y''\<rparr>, \<lparr>elb_Instance_InstanceId = Some ''i-z''\<rparr>,
         \<lparr>elb_Instance_InstanceId = Some ''i-b''\<rparr>],
      DescribeInstancesCall ''us-east-1'' [Some ''i-a'', Some ''i-b'']]"

definition ex_old_world :: World where
  "ex_old_world = \<lparr>files = [''out/tg.json'' \<mapsto> ''[]''], stdout = '''', log = []\<rparr>"


section \<open>The grouping engine: what the loop keeps\<close>

text \<open>
  The proofs follow the loop of \<^verbatim>\<open>groupByTags\<close>: a lemma on one iteration
  (\<open>body_Inr\<close>), then inductions over the list of instances with the map built so
  far generalised.
\<close>

lemma groupKey_acc:
  "groupKey inst tags key = (case groupKey inst tags '''' of Inl e \<Rightarrow> Inl e | Inr s \<Rightarrow> Inr (key @ s))"
proof (induction tags arbitrary: key)
  case Nil
  show ?case by simp
next
  case (Cons t ts)
  show ?case
  proof (cases "getTag inst t")
    case (Inl e)
    then show ?thesis by simp
  next
    case (Inr v)
    have "groupKey inst ts (key @ ''|'' @ t @ ''='' @ v) =
       (case groupKey inst ts '''' of Inl e \<Rightarrow> Inl e | Inr s \<Rightarrow> Inr ((key @ ''|'' @ t @ ''='' @ v) @ s))"
      by (rule Cons.IH)
    moreover have "groupKey inst ts ('''' @ ''|'' @ t @ ''='' @ v) =
       (case groupKey inst ts '''' of Inl e \<Rightarrow> Inl e | Inr s \<Rightarrow> Inr (('''' @ ''|'' @ t @ ''='' @ v) @ s))"
      by (rule Cons.IH)
    ultimately show ?thesis using Inr by (simp split: sum.splits)
  qed
qed

lemma newLabels_total:
  "groupKey inst tags key = Inr s \<Longrightarrow> \<exists>l. newLabels inst tags acc = Inr l"
  by (induction tags arbitrary: key acc) (auto split: sum.splits)

lemma body_not_running:
  "State inst = Some st \<Longrightarrow> Code st = Some c \<Longrightarrow> c \<noteq> 16 \<Longrightarrow>
     groupByTags_body port tags tgs inst = Inr tgs"
  by (simp add: groupByTags_body_def)

lemma body_Inr:
  assumes "groupByTags_body port tags tgs inst = Inr tgs'"
  shows "(\<not> isRunning inst \<and> tgs' = tgs) \<or>
         (isRunning inst \<and> (\<exists>s addr labels g. groupKey inst tags [] = Inr s \<and>
            PrivateIpAddress inst = Some addr \<and> newLabels inst tags [] = Inr labels \<and>
            Targets g = (case map_of tgs s of Some tg \<Rightarrow> Targets tg | None \<Rightarrow> [])
                          @ [addr @ '':'' @ format_int port] \<and>
            Labels g = (case map_of tgs s of Some tg \<Rightarrow> Labels tg | None \<Rightarrow> labels) \<and>
            tgs' = AList.update s g tgs))"
proof (cases "isRunning inst")
  case False
  with assms show ?thesis
    by (auto simp: groupByTags_body_def isRunning_def split: option.splits if_splits)
next
  case True
  then obtain st where st: "State inst = Some st" "Code st = Some 16"
    by (auto simp: isRunning_def split: option.splits)
  from assms st obtain s where s: "groupKey inst tags [] = Inr s"
    by (auto simp: groupByTags_body_def split: sum.splits)
  from newLabels_total[OF s] obtain labels where l: "newLabels inst tags [] = Inr labels" by blast
  from assms st s l obtain addr where a: "PrivateIpAddress inst = Some addr"
    by (auto simp: groupByTags_body_def split: option.splits)
  define g where "g = (case map_of tgs s of Some tg \<Rightarrow> tg | None \<Rightarrow> \<lparr>Targets = [], Labels = labels\<rparr>)
      \<lparr>Targets := Targets (case map_of tgs s of Some tg \<Rightarrow> tg | None \<Rightarrow> \<lparr>Targets = [], Labels = labels\<rparr>)
          @ [addr @ '':'' @ format_int port]\<rparr>"
  have "tgs' = AList.update s g tgs"
    using assms st s l a by (auto simp: groupByTags_body_def g_def split: option.splits)
  moreover have "Targets g = (case map_of tgs s of Some tg \<Rightarrow> Targets tg | None \<Rightarrow> [])
                          @ [addr @ '':'' @ format_int port]"
    by (simp add: g_def split: option.splits)
  moreover have "Labels g = (case map_of tgs s of Some tg \<Rightarrow> Labels tg | None \<Rightarrow> labels)"
    by (simp add: g_def split: option.splits)
  ultimately show ?thesis using True s l a by blast
qed

lemma loop_Cons_Inr:
  "groupByTags_loop port tags acc (inst # instances) = Inr tgs \<Longrightarrow>
     \<exists>mid. groupByTags_body port tags acc inst = Inr mid \<and>
           groupByTags_loop port tags mid instances = Inr tgs"
  by (simp split: sum.splits)

lemma loop_append:
  "groupByTags_loop port tags acc (xs @ ys) =
     (case groupByTags_loop port tags acc xs of
        Inl e \<Rightarrow> Inl e
      | Inr mid \<Rightarrow> groupByTags_loop port tags mid ys)"
  by (induction xs arbitrary: acc) (auto split: sum.splits)

lemma loop_distinct:
  "groupByTags_loop port tags acc instances = Inr tgs \<Longrightarrow> distinct (map fst acc) \<Longrightarrow>
     distinct (map fst tgs)"
proof (induction instances arbitrary: acc)
  case Nil
  then show ?case by simp
next
  case (Cons inst instances)
  from loop_Cons_Inr[OF Cons.prems(1)] obtain mid where
    mid: "groupByTags_body port tags acc inst = Inr mid"
    and rest: "groupByTags_loop port tags mid instances = Inr tgs" by blast
  from body_Inr[OF mid] Cons.prems(2) have "distinct (map fst mid)"
    by (auto simp: distinct_update)
  with Cons.IH[OF rest] show ?case .
qed

lemma loop_targets:
  "groupByTags_loop port tags acc instances = Inr tgs \<Longrightarrow>
     \<exists>X. map Some X = map (targetOf port) (members tags s instances) \<and>
         map_option Targets (map_of tgs s) =
           (case map_of acc s of
              Some g \<Rightarrow> Some (Targets g @ X)
            | None \<Rightarrow> if X = [] then None else Some X)"
proof (induction instances arbitrary: acc)
  case Nil
  then show ?case by (auto simp: members_def split: option.splits)
next
  case (Cons inst instances)
  from loop_Cons_Inr[OF Cons.prems(1)] obtain mid where
    mid: "groupByTags_body port tags acc inst = Inr mid"
    and rest: "groupByTags_loop port tags mid instances = Inr tgs" by blast
  from Cons.IH[OF rest] obtain X where
    X: "map Some X = map (targetOf port) (members tags s instances)"
    and T: "map_option Targets (map_of tgs s) =
           (case map_of mid s of Some g \<Rightarrow> Some (Targets g @ X)
            | None \<Rightarrow> if X = [] then None else Some X)" by blast
  from body_Inr[OF mid] show ?case
  proof (elim disjE conjE exE)
    assume nr: "\<not> isRunning inst" and eq: "mid = acc"
    have mem: "members tags s (inst # instances) = members tags s instances"
      using nr by (simp add: members_def)
    from X T show ?thesis unfolding mem eq by blast
  next
    fix s0 addr labels g
    assume run: "isRunning inst" and k: "groupKey inst tags [] = Inr s0"
      and a: "PrivateIpAddress inst = Some addr"
      and tg: "Targets g = (case map_of acc s0 of Some tg \<Rightarrow> Targets tg | None \<Rightarrow> [])
                          @ [addr @ '':'' @ format_int port]"
      and m: "mid = AList.update s0 g acc"
    show ?thesis
    proof (cases "s0 = s")
      case True
      have mem: "members tags s (inst # instances) = inst # members tags s instances"
        using run k True by (simp add: members_def)
      have tO: "targetOf port inst = Some (addr @ '':'' @ format_int port)"
        using a by (simp add: targetOf_def)
      have 1: "map Some ((addr @ '':'' @ format_int port) # X) =
              map (targetOf port) (members tags s (inst # instances))"
        unfolding mem using X tO by simp
      have ms: "map_of mid s = Some g" using m True by (simp add: update_conv')
      have 2: "map_option Targets (map_of tgs s) =
           (case map_of acc s of
              Some g \<Rightarrow> Some (Targets g @ (addr @ '':'' @ format_int port) # X)
            | None \<Rightarrow> if (addr @ '':'' @ format_int port) # X = [] then None
                      else Some ((addr @ '':'' @ format_int port) # X))"
        using T tg True unfolding ms by (cases "map_of acc s") simp_all
      from 1 2 show ?thesis by blast
    next
      case False
      have mem: "members tags s (inst # instances) = members tags s instances"
        using k False by (simp add: members_def)
      have eq: "map_of mid s = map_of acc s" using m False by (simp add: update_conv')
      from X T show ?thesis unfolding mem eq by blast
    qed
  qed
qed

lemma newLabels_map_of:
  "newLabels inst tags acc = Inr l \<Longrightarrow>
     map_of l k = (case labelsOf tags inst k of Some v \<Rightarrow> Some v | None \<Rightarrow> map_of acc k)"
proof (induction tags arbitrary: acc)
  case Nil
  then show ?case by (simp add: labelsOf_def)
next
  case (Cons t ts)
  from Cons.prems obtain v where v: "getTag inst t = Inr v"
    and rest: "newLabels inst ts (if v \<noteq> [] then AList.update t v acc else acc) = Inr l"
    by (auto split: sum.splits)
  note IH = Cons.IH[OF rest]
  show ?case
  proof (cases "k \<in> set ts")
    case True
    then have "labelsOf (t # ts) inst k = labelsOf ts inst k" by (simp add: labelsOf_def)
    then show ?thesis using IH v True
      by (cases "k = t") (auto simp: labelsOf_def update_conv' split: option.splits if_splits)
  next
    case False
    then have "labelsOf ts inst k = None" by (simp add: labelsOf_def)
    with IH v False show ?thesis
      by (auto simp: labelsOf_def update_conv' split: option.splits if_splits)
  qed
qed

lemma newLabels_distinct:
  "newLabels inst tags acc = Inr l \<Longrightarrow> distinct (map fst acc) \<Longrightarrow> distinct (map fst l)"
  by (induction tags arbitrary: acc) (auto split: sum.splits if_splits simp: distinct_update)

lemma loop_labels:
  "groupByTags_loop port tags acc instances = Inr tgs \<Longrightarrow> map_of tgs s = Some g \<Longrightarrow>
     (case map_of acc s of
        Some g0 \<Rightarrow> Labels g = Labels g0
      | None \<Rightarrow> members tags s instances \<noteq> [] \<and>
                newLabels (hd (members tags s instances)) tags [] = Inr (Labels g))"
proof (induction instances arbitrary: acc)
  case Nil
  then show ?case by simp
next
  case (Cons inst instances)
  from loop_Cons_Inr[OF Cons.prems(1)] obtain mid where
    mid: "groupByTags_body port tags acc inst = Inr mid"
    and rest: "groupByTags_loop port tags mid instances = Inr tgs" by blast
  note IH = Cons.IH[OF rest Cons.prems(2)]
  from body_Inr[OF mid] show ?case
  proof (elim disjE conjE exE)
    assume nr: "\<not> isRunning inst" and eq: "mid = acc"
    have mem: "members tags s (inst # instances) = members tags s instances"
      using nr by (simp add: members_def)
    from IH show ?thesis unfolding mem eq .
  next
    fix s0 addr labels g'
    assume run: "isRunning inst" and k: "groupKey inst tags [] = Inr s0"
      and nl: "newLabels inst tags [] = Inr labels"
      and lg: "Labels g' = (case map_of acc s0 of Some tg \<Rightarrow> Labels tg | None \<Rightarrow> labels)"
      and m: "mid = AList.update s0 g' acc"
    show ?thesis
    proof (cases "s0 = s")
      case True
      have mem: "members tags s (inst # instances) = inst # members tags s instances"
        using run k True by (simp add: members_def)
      have ms: "map_of mid s = Some g'" using m True by (simp add: update_conv')
      from IH have "Labels g = Labels g'" unfolding ms by simp
      with lg nl True show ?thesis unfolding mem by (cases "map_of acc s") simp_all
    next
      case False
      have mem: "members tags s (inst # instances) = members tags s instances"
        using k False by (simp add: members_def)
      have eq: "map_of mid s = map_of acc s" using m False by (simp add: update_conv')
      from IH show ?thesis unfolding mem eq .
    qed
  qed
qed

lemma loop_running_ok:
  "groupByTags_loop port tags acc instances = Inr tgs \<Longrightarrow> inst \<in> set instances \<Longrightarrow>
     isRunning inst \<Longrightarrow>
     (\<exists>s. groupKey inst tags [] = Inr s) \<and> (\<exists>addr. PrivateIpAddress inst = Some addr)"
proof (induction instances arbitrary: acc)
  case Nil
  then show ?case by simp
next
  case (Cons a instances)
  from loop_Cons_Inr[OF Cons.prems(1)] obtain mid where
    mid: "groupByTags_body port tags acc a = Inr mid"
    and rest: "groupByTags_loop port tags mid instances = Inr tgs" by blast
  show ?case
  proof (cases "inst = a")
    case True
    with body_Inr[OF mid] Cons.prems(3) show ?thesis by blast
  next
    case False
    with Cons.prems(2) have "inst \<in> set instances" by simp
    from Cons.IH[OF rest this Cons.prems(3)] show ?thesis .
  qed
qed

lemma groupKey_Cons:
  "groupKey inst (t # ts) [] = Inr s \<Longrightarrow>
     \<exists>v r. getTag inst t = Inr v \<and> groupKey inst ts [] = Inr r \<and> s = ''|'' @ t @ ''='' @ v @ r"
proof -
  assume a: "groupKey inst (t # ts) [] = Inr s"
  then obtain v where v: "getTag inst t = Inr v" by (auto split: sum.splits)
  with a have "groupKey inst ts (''|'' @ t @ ''='' @ v) = Inr s" by simp
  then obtain r where "groupKey inst ts [] = Inr r" "s = (''|'' @ t @ ''='' @ v) @ r"
    by (subst (asm) groupKey_acc) (auto split: sum.splits)
  with v show ?thesis by auto
qed

lemma groupKey_shape:
  "groupKey inst tags [] = Inr s \<Longrightarrow> s = [] \<or> hd s = CHR ''|''"
proof (cases tags)
  case Nil
  assume "groupKey inst tags [] = Inr s"
  with Nil show ?thesis by simp
next
  case (Cons t ts)
  assume "groupKey inst tags [] = Inr s"
  with Cons have "groupKey inst (t # ts) [] = Inr s" by simp
  from groupKey_Cons[OF this] show ?thesis by auto
qed

lemma bar_split:
  assumes "CHR ''|'' \<notin> set v" "CHR ''|'' \<notin> set w"
    and "r = [] \<or> hd r = CHR ''|''" "r' = [] \<or> hd r' = CHR ''|''"
    and "v @ r = w @ r'"
  shows "v = w \<and> r = r'"
proof -
  have "takeWhile (\<lambda>c. c \<noteq> CHR ''|'') (v @ r) = v"
    using assms(1,3) by (cases r) (auto simp: takeWhile_append)
  moreover have "takeWhile (\<lambda>c. c \<noteq> CHR ''|'') (w @ r') = w"
    using assms(2,4) by (cases r') (auto simp: takeWhile_append)
  ultimately have "v = w" using assms(5) by simp
  with assms(5) show ?thesis by simp
qed

lemma groupKey_inj:
  "groupKey i tags [] = Inr s \<Longrightarrow> groupKey j tags [] = Inr s \<Longrightarrow>
     bar_free tags i \<Longrightarrow> bar_free tags j \<Longrightarrow> k \<in> set tags \<Longrightarrow> getTag i k = getTag j k"
proof (induction tags arbitrary: s)
  case Nil
  then show ?case by simp
next
  case (Cons t ts)
  from groupKey_Cons[OF Cons.prems(1)] obtain v r where
    v: "getTag i t = Inr v" and r: "groupKey i ts [] = Inr r" and s1: "s = ''|'' @ t @ ''='' @ v @ r"
    by blast
  from groupKey_Cons[OF Cons.prems(2)] obtain w r' where
    w: "getTag j t = Inr w" and r': "groupKey j ts [] = Inr r'" and s2: "s = ''|'' @ t @ ''='' @ w @ r'"
    by blast
  have bv: "CHR ''|'' \<notin> set v" using Cons.prems(3) v by (simp add: bar_free_def)
  have bw: "CHR ''|'' \<notin> set w" using Cons.prems(4) w by (simp add: bar_free_def)
  from s1 s2 have "v @ r = w @ r'" by simp
  from bar_split[OF bv bw groupKey_shape[OF r] groupKey_shape[OF r'] this]
  have eq: "v = w" "r = r'" by simp_all
  have bi: "bar_free ts i" using Cons.prems(3) by (simp add: bar_free_def)
  have bj: "bar_free ts j" using Cons.prems(4) by (simp add: bar_free_def)
  show ?case
  proof (cases "k = t")
    case True
    with v w eq show ?thesis by simp
  next
    case False
    with Cons.prems(5) have "k \<in> set ts" by simp
    from Cons.IH[OF r _ bi bj this] r' eq show ?thesis by simp
  qed
qed

lemma labelsOf_inj:
  "groupKey i tags [] = Inr s \<Longrightarrow> groupKey j tags [] = Inr s \<Longrightarrow>
     bar_free tags i \<Longrightarrow> bar_free tags j \<Longrightarrow> labelsOf tags i = labelsOf tags j"
  by (rule ext) (auto simp: labelsOf_def dest: groupKey_inj)

lemma allTargets_update:
  "Targets g = (case map_of al k of Some tg \<Rightarrow> Targets tg | None \<Rightarrow> []) @ [t] \<Longrightarrow>
     mset (allTargets (AList.update k g al)) = add_mset t (mset (allTargets al))"
  by (induction al) (auto simp: allTargets_def)

lemma loop_mset:
  "groupByTags_loop port tags acc instances = Inr tgs \<Longrightarrow>
     mset (map Some (allTargets tgs)) =
       mset (map Some (allTargets acc)) + mset (map (targetOf port) (filter isRunning instances))"
proof (induction instances arbitrary: acc)
  case Nil
  then show ?case by simp
next
  case (Cons inst instances)
  from loop_Cons_Inr[OF Cons.prems(1)] obtain mid where
    mid: "groupByTags_body port tags acc inst = Inr mid"
    and rest: "groupByTags_loop port tags mid instances = Inr tgs" by blast
  note IH = Cons.IH[OF rest]
  from body_Inr[OF mid] show ?case
  proof (elim disjE conjE exE)
    assume "\<not> isRunning inst" "mid = acc"
    with IH show ?thesis by simp
  next
    fix s0 addr labels g
    assume run: "isRunning inst"
      and a: "PrivateIpAddress inst = Some addr"
      and tg: "Targets g = (case map_of acc s0 of Some tg \<Rightarrow> Targets tg | None \<Rightarrow> [])
                          @ [addr @ '':'' @ format_int port]"
      and m: "mid = AList.update s0 g acc"
    have "mset (allTargets mid) = add_mset (addr @ '':'' @ format_int port) (mset (allTargets acc))"
      unfolding m by (rule allTargets_update[OF tg])
    then have "mset (map Some (allTargets mid)) =
       add_mset (Some (addr @ '':'' @ format_int port)) (mset (map Some (allTargets acc)))"
      by (metis image_mset_add_mset mset_map)
    moreover have "targetOf port inst = Some (addr @ '':'' @ format_int port)"
      using a by (simp add: targetOf_def)
    ultimately show ?thesis using IH run by simp
  qed
qed

lemma getTag_loop_absent:
  "None \<notin> Key ` set ts \<Longrightarrow> Some k \<notin> Key ` set ts \<Longrightarrow> getTag_loop ts k = Inr []"
  by (induction ts) (auto split: option.splits)

lemma getTag_loop_drop_empty:
  "distinct (map Key ts) \<Longrightarrow> None \<notin> Key ` set ts \<Longrightarrow>
     getTag_loop (filter (\<lambda>t. Value t \<noteq> Some []) ts) k = getTag_loop ts k"
proof (induction ts)
  case Nil
  show ?case by simp
next
  case (Cons t ts)
  then obtain k0 where k0: "Key t = Some k0" by (cases "Key t") auto
  have IH: "getTag_loop (filter (\<lambda>t. Value t \<noteq> Some []) ts) k = getTag_loop ts k"
    using Cons by simp
  show ?case
  proof (cases "Value t = Some [] \<and> k0 = k")
    case True
    have "Some k \<notin> Key ` set ts" using Cons.prems(1) k0 True by auto
    moreover have "None \<notin> Key ` set ts" using Cons.prems(2) by auto
    ultimately have "getTag_loop ts k = Inr []" by (rule getTag_loop_absent[rotated])
    with IH True k0 show ?thesis by simp
  next
    case False
    with IH k0 show ?thesis by auto
  qed
qed

lemma groupKey_cong:
  "(\<And>k. getTag i k = getTag j k) \<Longrightarrow> groupKey i tags key = groupKey j tags key"
  by (induction tags arbitrary: key) (auto split: sum.splits)

lemma newLabels_cong:
  "(\<And>k. getTag i k = getTag j k) \<Longrightarrow> newLabels i tags acc = newLabels j tags acc"
  by (induction tags arbitrary: acc) (auto split: sum.splits)

lemma body_cong:
  assumes "\<And>k. getTag i k = getTag j k" "State i = State j"
    "PrivateIpAddress i = PrivateIpAddress j"
  shows "groupByTags_body port tags acc i = groupByTags_body port tags acc j"
proof -
  have a: "groupKey i tags [] = groupKey j tags []" by (rule groupKey_cong[OF assms(1)])
  have b: "newLabels i tags [] = newLabels j tags []" by (rule newLabels_cong[OF assms(1)])
  show ?thesis unfolding groupByTags_body_def a b assms(2) assms(3) by (rule refl)
qed

lemma loop_InstanceId:
  "groupByTags_loop port tags acc (map (\<lambda>inst. inst\<lparr>InstanceId := f inst\<rparr>) instances) =
     groupByTags_loop port tags acc instances"
proof (induction instances arbitrary: acc)
  case Nil
  show ?case by simp
next
  case (Cons inst instances)
  have "groupByTags_body port tags acc (inst\<lparr>InstanceId := f inst\<rparr>) =
        groupByTags_body port tags acc inst"
    by (rule body_cong) (simp_all add: getTag_def)
  with Cons.IH show ?case by (simp split: sum.splits)
qed

section \<open>Properties of the grouping engine\<close>

lemmas ex_defs = ex_A_def ex_B_def ex_C_def ex_stopped_def ex_groups_def
lemmas run_simps = groupByTags_def groupByTags_body_def getTag_def format_int_def
  decimal.simps digit_def

lemma ex_run:
  "groupByTags 80 [ex_A, ex_B, ex_C] [''Environment''] = Inr ex_groups"
  by (simp add: ex_defs run_simps)

text \<open>
  C1 (as amended). An instance whose lifecycle state code is present and is not 16, with
  or without a private address, has no effect on the run of the grouping engine: the
  result, be it the groups or a failure caused by another instance, is the one the
  engine gives on the list without that instance. It adds no group and no target, and
  it raises no error.
\<close>

theorem groupByTags_skips_not_running:
  assumes "State inst = Some st" and "Code st = Some c" and "c \<noteq> 16"
  shows "groupByTags port (xs @ inst # ys) tags = groupByTags port (xs @ ys) tags"
proof -
  have "groupByTags_loop port tags acc (inst # ys) = groupByTags_loop port tags acc ys" for acc
    using body_not_running[OF assms] by simp
  then show ?thesis
    by (simp add: groupByTags_def loop_append split: sum.splits)
qed

theorem groupByTags_skips_not_running_witness:
  "(80 :: 64 word) \<noteq> 16 \<and>
   groupByTags 80 ([ex_A, ex_B] @ ex_stopped # [ex_C]) [''Environment''] = Inr ex_groups"
proof -
  have 1: "State ex_stopped = Some \<lparr>Code = Some 80\<rparr>" by (simp add: ex_stopped_def)
  have 2: "Code \<lparr>Code = Some (80 :: 64 word)\<rparr> = Some 80" by simp
  have 3: "(80 :: 64 word) \<noteq> 16" by simp
  from groupByTags_skips_not_running[OF 1 2 3, of 80 "[ex_A, ex_B]" "[ex_C]" "[''Environment'']"]
  show ?thesis using ex_run 3 by simp
qed

text \<open>
  C1 as stated also promises silent exclusion for an instance that lacks a private
  address. The code tests the state only (line 68): a Running instance without an
  address reaches the dereference of \<^verbatim>\<open>instance.PrivateIpAddress\<close> on line 93 and the
  run panics.
\<close>

theorem groupByTags_running_without_address_counterexample:
  "groupByTags 80
     [\<lparr>InstanceId = Some ''i-1'', PrivateIpAddress = None, State = Some \<lparr>Code = Some 16\<rparr>,
       Tags = [\<lparr>Key = Some ''Name'', Value = Some ''web''\<rparr>]\<rparr>] [''Name'']
     = Inl (Panic NilDereference) \<and>
   groupByTags 80 [] [''Name''] = Inr []"
  by (simp add: run_simps)

text \<open>
  C3. In a run that returns, the targets of all groups together are, with their
  multiplicities, the targets of the instances whose state code is 16: an instance in
  any other state contributes no target to any group. The engine never reads the
  identifier of an instance: whatever the identifiers are, and so whether or not they
  belong to the Health Set, the groups are the same.
\<close>

theorem groupByTags_targets_of_running:
  assumes "groupByTags port instances tags = Inr tgs"
  shows "mset (map Some (allTargets tgs)) =
           mset (map (targetOf port) (filter isRunning instances)) \<and>
         (\<forall>f. groupByTags port (map (\<lambda>inst. inst\<lparr>InstanceId := f inst\<rparr>) instances) tags =
               Inr tgs)"
proof
  show "mset (map Some (allTargets tgs)) =
           mset (map (targetOf port) (filter isRunning instances))"
    using loop_mset[OF assms[unfolded groupByTags_def]] by (simp add: allTargets_def)
  show "\<forall>f. groupByTags port (map (\<lambda>inst. inst\<lparr>InstanceId := f inst\<rparr>) instances) tags =
               Inr tgs"
    using assms by (simp add: groupByTags_def loop_InstanceId)
qed

theorem groupByTags_targets_of_running_witness:
  "groupByTags 80 [ex_A, ex_B, ex_stopped, ex_C] [''Environment''] = Inr ex_groups \<and>
   mset (map Some (allTargets ex_groups)) =
     mset [Some ''10.0.0.1:80'', Some ''10.0.0.2:80'', Some ''10.0.0.3:80''] \<and>
   groupByTags 80 (map (\<lambda>inst. inst\<lparr>InstanceId := None\<rparr>) [ex_A, ex_B, ex_stopped, ex_C])
     [''Environment''] = Inr ex_groups"
proof -
  have run: "groupByTags 80 [ex_A, ex_B, ex_stopped, ex_C] [''Environment''] = Inr ex_groups"
    by (simp add: ex_defs run_simps)
  have eq: "map (targetOf 80) (filter isRunning [ex_A, ex_B, ex_stopped, ex_C]) =
      [Some ''10.0.0.1:80'', Some ''10.0.0.2:80'', Some ''10.0.0.3:80'']"
    by (simp add: ex_defs isRunning_def targetOf_def format_int_def decimal.simps digit_def)
  from groupByTags_targets_of_running[OF run, THEN conjunct1]
  have "mset (map Some (allTargets ex_groups)) =
     mset [Some ''10.0.0.1:80'', Some ''10.0.0.2:80'', Some ''10.0.0.3:80'']"
    unfolding eq .
  moreover from groupByTags_targets_of_running[OF run, THEN conjunct2]
  have "groupByTags 80 (map (\<lambda>inst. inst\<lparr>InstanceId := None\<rparr>) [ex_A, ex_B, ex_stopped, ex_C])
     [''Environment''] = Inr ex_groups" by (rule spec)
  ultimately show ?thesis using run by blast
qed

lemma groupByTags_group_targets:
  assumes "groupByTags port instances tags = Inr tgs"
  shows "case map_of tgs s of
           None \<Rightarrow> members tags s instances = []
         | Some g \<Rightarrow> members tags s instances \<noteq> [] \<and>
                     map Some (Targets g) = map (targetOf port) (members tags s instances)"
proof -
  from loop_targets[OF assms[unfolded groupByTags_def], of s] obtain X where
    X: "map Some X = map (targetOf port) (members tags s instances)"
    and T: "map_option Targets (map_of tgs s) = (if X = [] then None else Some X)"
    by auto
  from X have len: "length X = length (members tags s instances)"
    by (metis length_map)
  show ?thesis
  proof (cases "map_of tgs s")
    case None
    with T have "X = []" by (simp split: if_splits)
    with len None show ?thesis by simp
  next
    case (Some g)
    with T have "X \<noteq> []" "Targets g = X" by (simp_all split: if_splits)
    with len X Some show ?thesis by auto
  qed
qed

lemma targetOf_eq_address:
  "targetOf port i = Some t \<Longrightarrow> targetOf port k = Some t \<Longrightarrow>
     PrivateIpAddress i = PrivateIpAddress k"
  by (auto simp: targetOf_def)

lemma target_in_group:
  assumes run: "groupByTags port instances tags = Inr tgs"
    and d: "distinct (map PrivateIpAddress (filter isRunning instances))"
    and i: "i \<in> set instances" "isRunning i"
    and g: "map_of tgs s = Some g"
  shows "targetOf port i \<in> Some ` set (Targets g) \<longleftrightarrow> groupKey i tags [] = Inr s"
proof
  from groupByTags_group_targets[OF run, of s] g
  have T: "map Some (Targets g) = map (targetOf port) (members tags s instances)" by simp
  then have S: "Some ` set (Targets g) = targetOf port ` set (members tags s instances)"
    by (metis list.set_map)
  {
    assume "targetOf port i \<in> Some ` set (Targets g)"
    with S obtain k where k: "k \<in> set (members tags s instances)"
      and e: "targetOf port i = targetOf port k" by auto
    from k have kk: "k \<in> set (filter isRunning instances)" "groupKey k tags [] = Inr s"
      by (auto simp: members_def)
    from loop_running_ok[OF run[unfolded groupByTags_def] i] obtain a
      where "PrivateIpAddress i = Some a" by blast
    then obtain t where ti: "targetOf port i = Some t" by (simp add: targetOf_def)
    with e have tk: "targetOf port k = Some t" by simp
    have "PrivateIpAddress i = PrivateIpAddress k"
      by (rule targetOf_eq_address[OF ti tk])
    moreover have "inj_on PrivateIpAddress (set (filter isRunning instances))"
      using d by (simp add: distinct_map)
    moreover have "i \<in> set (filter isRunning instances)" using i by simp
    ultimately have "i = k" using kk(1) by (auto dest: inj_onD)
    with kk(2) show "groupKey i tags [] = Inr s" by simp
  }
  {
    assume "groupKey i tags [] = Inr s"
    with i have "i \<in> set (members tags s instances)" by (simp add: members_def)
    then have "targetOf port i \<in> targetOf port ` set (members tags s instances)" by blast
    with S show "targetOf port i \<in> Some ` set (Targets g)" by simp
  }
qed

text \<open>
  C2. In a run that returns, the group stored under a signature holds exactly the
  targets of the Running instances with that signature, in input order, and no group
  exists for a signature no Running instance has. So two Running instances put their
  targets into the same group exactly when their signatures are equal; where the
  addresses of the Running instances are distinct, so that a target names its instance,
  this reads: some group holds both targets iff the signatures are equal.
\<close>

theorem groupByTags_partition:
  assumes run: "groupByTags port instances tags = Inr tgs"
  shows "(\<forall>s. case map_of tgs s of
              None \<Rightarrow> members tags s instances = []
            | Some g \<Rightarrow> members tags s instances \<noteq> [] \<and>
                map Some (Targets g) = map (targetOf port) (members tags s instances)) \<and>
         (distinct (map PrivateIpAddress (filter isRunning instances)) \<longrightarrow>
            (\<forall>i\<in>set instances. \<forall>j\<in>set instances. isRunning i \<longrightarrow> isRunning j \<longrightarrow>
               ((\<exists>s g. map_of tgs s = Some g \<and>
                   targetOf port i \<in> Some ` set (Targets g) \<and>
                   targetOf port j \<in> Some ` set (Targets g))
                \<longleftrightarrow> groupKey i tags [] = groupKey j tags [])))"
proof (intro conjI allI impI ballI)
  fix s
  show "case map_of tgs s of
           None \<Rightarrow> members tags s instances = []
         | Some g \<Rightarrow> members tags s instances \<noteq> [] \<and>
                     map Some (Targets g) = map (targetOf port) (members tags s instances)"
    by (rule groupByTags_group_targets[OF run])
next
  fix i j
  assume d: "distinct (map PrivateIpAddress (filter isRunning instances))"
    and i: "i \<in> set instances" "isRunning i" and j: "j \<in> set instances" "isRunning j"
  from loop_running_ok[OF run[unfolded groupByTags_def] i] obtain si
    where si: "groupKey i tags [] = Inr si" by blast
  show "(\<exists>s g. map_of tgs s = Some g \<and>
            targetOf port i \<in> Some ` set (Targets g) \<and>
            targetOf port j \<in> Some ` set (Targets g))
         \<longleftrightarrow> groupKey i tags [] = groupKey j tags []"
  proof
    assume "\<exists>s g. map_of tgs s = Some g \<and>
            targetOf port i \<in> Some ` set (Targets g) \<and>
            targetOf port j \<in> Some ` set (Targets g)"
    then obtain s g where g: "map_of tgs s = Some g"
      and ti: "targetOf port i \<in> Some ` set (Targets g)"
      and tj: "targetOf port j \<in> Some ` set (Targets g)" by blast
    from ti tj target_in_group[OF run d i g] target_in_group[OF run d j g]
    show "groupKey i tags [] = groupKey j tags []" by simp
  next
    assume e: "groupKey i tags [] = groupKey j tags []"
    from i si have "i \<in> set (members tags si instances)" by (simp add: members_def)
    then have ne: "members tags si instances \<noteq> []" by auto
    with groupByTags_group_targets[OF run, of si] obtain g where g: "map_of tgs si = Some g"
      by (cases "map_of tgs si") auto
    from target_in_group[OF run d i g] target_in_group[OF run d j g] si e g
    show "\<exists>s g. map_of tgs s = Some g \<and>
            targetOf port i \<in> Some ` set (Targets g) \<and>
            targetOf port j \<in> Some ` set (Targets g)" by auto
  qed
qed

theorem groupByTags_partition_witness:
  "groupByTags 80 [ex_A, ex_B, ex_C] [''Environment''] = Inr ex_groups \<and>
   distinct (map PrivateIpAddress (filter isRunning [ex_A, ex_B, ex_C])) \<and>
   isRunning ex_A \<and> isRunning ex_B \<and> isRunning ex_C \<and>
   map_of ex_groups ''|Environment=prod'' =
     Some \<lparr>Targets = [''10.0.0.1:80'', ''10.0.0.3:80''], Labels = [(''Environment'', ''prod'')]\<rparr> \<and>
   members [''Environment''] ''|Environment=prod'' [ex_A, ex_B, ex_C] = [ex_A, ex_C] \<and>
   groupKey ex_A [''Environment''] [] = groupKey ex_C [''Environment''] [] \<and>
   (\<exists>s g. map_of ex_groups s = Some g \<and>
       targetOf 80 ex_A \<in> Some ` set (Targets g) \<and> targetOf 80 ex_C \<in> Some ` set (Targets g)) \<and>
   groupKey ex_A [''Environment''] [] \<noteq> groupKey ex_B [''Environment''] [] \<and>
   \<not> (\<exists>s g. map_of ex_groups s = Some g \<and>
       targetOf 80 ex_A \<in> Some ` set (Targets g) \<and> targetOf 80 ex_B \<in> Some ` set (Targets g))"
proof -
  have run: "groupByTags 80 [ex_A, ex_B, ex_C] [''Environment''] = Inr ex_groups"
    by (rule ex_run)
  have d: "distinct (map PrivateIpAddress (filter isRunning [ex_A, ex_B, ex_C]))"
    by (simp add: ex_defs isRunning_def)
  have r: "isRunning ex_A" "isRunning ex_B" "isRunning ex_C"
    by (simp_all add: ex_defs isRunning_def)
  have k: "groupKey ex_A [''Environment''] [] = groupKey ex_C [''Environment''] []"
    "groupKey ex_A [''Environment''] [] \<noteq> groupKey ex_B [''Environment''] []"
    by (simp_all add: ex_defs getTag_def)
  have m: "members [''Environment''] ''|Environment=prod'' [ex_A, ex_B, ex_C] = [ex_A, ex_C]"
    by (simp add: members_def r) (simp add: ex_defs getTag_def)
  have g: "map_of ex_groups ''|Environment=prod'' =
     Some \<lparr>Targets = [''10.0.0.1:80'', ''10.0.0.3:80''], Labels = [(''Environment'', ''prod'')]\<rparr>"
    by (simp add: ex_groups_def)
  note P = groupByTags_partition[OF run]
  from P d r have AC: "(\<exists>s g. map_of ex_groups s = Some g \<and>
       targetOf 80 ex_A \<in> Some ` set (Targets g) \<and> targetOf 80 ex_C \<in> Some ` set (Targets g))
     \<longleftrightarrow> groupKey ex_A [''Environment''] [] = groupKey ex_C [''Environment''] []"
    by simp
  from P d r have AB: "(\<exists>s g. map_of ex_groups s = Some g \<and>
       targetOf 80 ex_A \<in> Some ` set (Targets g) \<and> targetOf 80 ex_B \<in> Some ` set (Targets g))
     \<longleftrightarrow> groupKey ex_A [''Environment''] [] = groupKey ex_B [''Environment''] []"
    by simp
  from run d r g m k AC AB show ?thesis by blast
qed

lemma getTag_drop_empty:
  assumes "distinct (map Key (Tags inst))" "None \<notin> Key ` set (Tags inst)"
  shows "getTag (inst\<lparr>Tags := filter (\<lambda>t. Value t \<noteq> Some '''') (Tags inst)\<rparr>) k = getTag inst k"
  using getTag_loop_drop_empty[OF assms] by (simp add: getTag_def)

lemma labelsOf_newLabels:
  assumes "newLabels inst tags [] = Inr l"
  shows "map_of l = labelsOf tags inst"
proof
  fix k
  from newLabels_map_of[OF assms, of k] show "map_of l k = labelsOf tags inst k"
    by (simp split: option.splits)
qed

text \<open>
  C10 (as amended). In a run that returns, the labels of the group stored under a
  signature are those of the first Running instance, in input order, that has the
  signature: exactly the selector keys for which that instance's tag value is not empty,
  each mapped to that value, every key once. Every Running instance with the signature
  gives the same labels provided no selector tag value of it or of the first one holds
  the separator \<open>|\<close>. An instance whose tag keys are unique and present is processed
  exactly as the same instance without its empty-valued tags: same group, same labels.
\<close>

theorem groupByTags_labels:
  assumes run: "groupByTags port instances tags = Inr tgs" and g: "map_of tgs s = Some g"
  shows "members tags s instances \<noteq> [] \<and>
         distinct (map fst (Labels g)) \<and>
         map_of (Labels g) = labelsOf tags (hd (members tags s instances)) \<and>
         (\<forall>j\<in>set (members tags s instances).
            bar_free tags (hd (members tags s instances)) \<longrightarrow> bar_free tags j \<longrightarrow>
              labelsOf tags j = map_of (Labels g)) \<and>
         (\<forall>acc inst. distinct (map Key (Tags inst)) \<longrightarrow> None \<notin> Key ` set (Tags inst) \<longrightarrow>
            groupByTags_body port tags acc
              (inst\<lparr>Tags := filter (\<lambda>t. Value t \<noteq> Some '''') (Tags inst)\<rparr>) =
            groupByTags_body port tags acc inst)"
proof -
  let ?ms = "members tags s instances"
  from loop_labels[OF run[unfolded groupByTags_def] g]
  have ne: "?ms \<noteq> []" and nl: "newLabels (hd ?ms) tags [] = Inr (Labels g)" by simp_all
  have d: "distinct (map fst (Labels g))" using newLabels_distinct[OF nl] by simp
  have m: "map_of (Labels g) = labelsOf tags (hd ?ms)" by (rule labelsOf_newLabels[OF nl])
  from ne have "hd ?ms \<in> set ?ms" by simp
  then have kh: "groupKey (hd ?ms) tags [] = Inr s" by (simp add: members_def)
  have same: "labelsOf tags j = map_of (Labels g)"
    if "j \<in> set ?ms" "bar_free tags (hd ?ms)" "bar_free tags j" for j
  proof -
    from that(1) have "groupKey j tags [] = Inr s" by (simp add: members_def)
    from labelsOf_inj[OF this kh that(3) that(2)] m show ?thesis by simp
  qed
  have e: "groupByTags_body port tags acc
              (inst\<lparr>Tags := filter (\<lambda>t. Value t \<noteq> Some '''') (Tags inst)\<rparr>) =
            groupByTags_body port tags acc inst"
    if "distinct (map Key (Tags inst))" "None \<notin> Key ` set (Tags inst)" for acc inst
    by (rule body_cong) (simp_all add: getTag_drop_empty[OF that])
  from ne d m same e show ?thesis by blast
qed

theorem groupByTags_labels_witness:
  "groupByTags 80 [ex_A, ex_B, ex_C] [''Environment''] = Inr ex_groups \<and>
   map_of ex_groups ''|Environment=prod'' =
     Some \<lparr>Targets = [''10.0.0.1:80'', ''10.0.0.3:80''], Labels = [(''Environment'', ''prod'')]\<rparr> \<and>
   members [''Environment''] ''|Environment=prod'' [ex_A, ex_B, ex_C] = [ex_A, ex_C] \<and>
   bar_free [''Environment''] ex_A \<and> bar_free [''Environment''] ex_C \<and>
   labelsOf [''Environment''] ex_C = map_of [(''Environment'', ''prod'')] \<and>
   labelsOf [''Environment''] ex_A = map_of [(''Environment'', ''prod'')] \<and>
   distinct (map Key (Tags ex_D)) \<and> None \<notin> Key ` set (Tags ex_D) \<and>
   groupByTags_body 80 [''Environment''] []
     (ex_D\<lparr>Tags := [\<lparr>Key = Some ''Environment'', Value = Some ''prod''\<rparr>]\<rparr>) =
   groupByTags_body 80 [''Environment''] [] ex_D"
proof -
  have run: "groupByTags 80 [ex_A, ex_B, ex_C] [''Environment''] = Inr ex_groups"
    by (rule ex_run)
  have g: "map_of ex_groups ''|Environment=prod'' =
     Some \<lparr>Targets = [''10.0.0.1:80'', ''10.0.0.3:80''], Labels = [(''Environment'', ''prod'')]\<rparr>"
    by (simp add: ex_groups_def)
  have r: "isRunning ex_A" "isRunning ex_B" "isRunning ex_C"
    by (simp_all add: ex_defs isRunning_def)
  have m: "members [''Environment''] ''|Environment=prod'' [ex_A, ex_B, ex_C] = [ex_A, ex_C]"
    by (simp add: members_def r) (simp add: ex_defs getTag_def)
  have b: "bar_free [''Environment''] ex_A" "bar_free [''Environment''] ex_C"
    by (auto simp: bar_free_def ex_defs getTag_def)
  have dD: "distinct (map Key (Tags ex_D))" "None \<notin> Key ` set (Tags ex_D)"
    by (auto simp: ex_D_def)
  have fD: "filter (\<lambda>t. Value t \<noteq> Some '''') (Tags ex_D) =
      [\<lparr>Key = Some ''Environment'', Value = Some ''prod''\<rparr>]"
    by (simp add: ex_D_def)
  have h: "hd [ex_A, ex_C] = ex_A" by simp
  note L = groupByTags_labels[OF run g, unfolded m h]
  note L3 = L[THEN conjunct2, THEN conjunct2, THEN conjunct1]
  note L4 = L[THEN conjunct2, THEN conjunct2, THEN conjunct2, THEN conjunct1]
  note L5 = L[THEN conjunct2, THEN conjunct2, THEN conjunct2, THEN conjunct2]
  have lg: "Labels \<lparr>Targets = [''10.0.0.1:80'', ''10.0.0.3:80''],
      Labels = [(''Environment'', ''prod'')]\<rparr> = [(''Environment'', ''prod'')]" by simp
  have 1: "labelsOf [''Environment''] ex_A = map_of [(''Environment'', ''prod'')]"
    using L3 unfolding lg by (rule sym)
  have "ex_C \<in> set [ex_A, ex_C]" by simp
  from bspec[OF L4 this, THEN mp, THEN mp, OF b]
  have 2: "labelsOf [''Environment''] ex_C = map_of [(''Environment'', ''prod'')]"
    unfolding lg .
  from L5[THEN spec, THEN spec, THEN mp, THEN mp, OF dD]
  have 3: "groupByTags_body 80 [''Environment''] []
              (ex_D\<lparr>Tags := [\<lparr>Key = Some ''Environment'', Value = Some ''prod''\<rparr>]\<rparr>) =
            groupByTags_body 80 [''Environment''] [] ex_D"
    unfolding fD .
  from run g m b 1 2 3 dD show ?thesis by blast
qed

text \<open>
  C10 as stated makes the labels a function of the signature. The signature joins keys
  and values with \<open>|\<close> and \<open>=\<close> and escapes neither, so instances with different tag
  values can share a signature; the labels are then those of whichever comes first.
\<close>

theorem groupByTags_labels_counterexample:
  "groupByTags 80
     [\<lparr>InstanceId = Some ''i-1'', PrivateIpAddress = Some ''10.0.0.1'',
        State = Some \<lparr>Code = Some 16\<rparr>,
        Tags = [\<lparr>Key = Some ''a'', Value = Some ''x|b=y''\<rparr>]\<rparr>,
      \<lparr>InstanceId = Some ''i-2'', PrivateIpAddress = Some ''10.0.0.2'',
        State = Some \<lparr>Code = Some 16\<rparr>,
        Tags = [\<lparr>Key = Some ''a'', Value = Some ''x''\<rparr>,
                \<lparr>Key = Some ''b'', Value = Some ''y|b=''\<rparr>]\<rparr>]
     [''a'', ''b''] =
   Inr [(''|a=x|b=y|b='',
         \<lparr>Targets = [''10.0.0.1:80'', ''10.0.0.2:80''], Labels = [(''a'', ''x|b=y'')]\<rparr>)] \<and>
   groupByTags 80
     [\<lparr>InstanceId = Some ''i-2'', PrivateIpAddress = Some ''10.0.0.2'',
        State = Some \<lparr>Code = Some 16\<rparr>,
        Tags = [\<lparr>Key = Some ''a'', Value = Some ''x''\<rparr>,
                \<lparr>Key = Some ''b'', Value = Some ''y|b=''\<rparr>]\<rparr>,
      \<lparr>InstanceId = Some ''i-1'', PrivateIpAddress = Some ''10.0.0.1'',
        State = Some \<lparr>Code = Some 16\<rparr>,
        Tags = [\<lparr>Key = Some ''a'', Value = Some ''x|b=y''\<rparr>]\<rparr>]
     [''a'', ''b''] =
   Inr [(''|a=x|b=y|b='',
         \<lparr>Targets = [''10.0.0.2:80'', ''10.0.0.1:80''],
          Labels = [(''a'', ''x''), (''b'', ''y|b='')]\<rparr>)]"
  by (simp add: run_simps)

section \<open>Properties of the health filter\<close>

lemma filterHealthyInstances_loop_eq:
  "\<forall>x\<in>set states. elb_State x \<noteq> None \<Longrightarrow>
     filterHealthyInstances_loop states acc =
       Inr (acc @ map elb_InstanceId (filter (\<lambda>x. elb_State x = Some ''InService'') states))"
  by (induction states arbitrary: acc) (auto split: option.splits)

text \<open>
  C4. For candidate states that each carry a status string, the health filter returns
  the identifiers of exactly those whose status is the string \<open>InService\<close>, byte for
  byte, in the order of the input; nothing else excludes an instance.
\<close>

theorem filterHealthyInstances_InService:
  assumes "\<forall>x\<in>set states. elb_State x \<noteq> None"
  shows "filterHealthyInstances states =
           Inr (map elb_InstanceId (filter (\<lambda>x. elb_State x = Some ''InService'') states))"
  using filterHealthyInstances_loop_eq[OF assms, of "[]"] by (simp add: filterHealthyInstances_def)

theorem filterHealthyInstances_InService_witness:
  "filterHealthyInstances ex_states = Inr [Some ''i-a'', Some ''i-b'']"
proof -
  have "\<forall>x\<in>set ex_states. elb_State x \<noteq> None" by (simp add: ex_states_def)
  from filterHealthyInstances_InService[OF this] show ?thesis by (simp add: ex_states_def)
qed


section \<open>Properties of the tag filter spec\<close>

lemma Split_not_Nil: "Split s c \<noteq> []"
  by (induction s) (auto split: list.splits)

lemma length_Split: "length (Split s c) = Suc (count_list s c)"
  by (induction s) (auto split: list.splits simp: Split_not_Nil)

lemma Split_no_sep: "c \<notin> set s \<Longrightarrow> Split s c = [s]"
  by (induction s) auto

lemma Split_first: "c \<notin> set k \<Longrightarrow> Split (k @ c # v) c = k # Split v c"
  by (induction k) auto

lemma parseTag_key:
  "CHR ''='' \<notin> set t \<Longrightarrow> parseTag t = Inr \<lparr>Tag.Key = t, FilterName = ''tag-key'', FilterValue = t\<rparr>"
  by (simp add: parseTag_def Split_no_sep)

lemma parseTag_key_value:
  "CHR ''='' \<notin> set k \<Longrightarrow> CHR ''='' \<notin> set v \<Longrightarrow>
     parseTag (k @ ''='' @ v) = Inr \<lparr>Tag.Key = k, FilterName = ''tag:'' @ k, FilterValue = v\<rparr>"
  by (simp add: parseTag_def Split_first Split_no_sep)

lemma parseTag_Inr: "count_list t (CHR ''='') \<le> 1 \<Longrightarrow> \<exists>tag. parseTag t = Inr tag"
proof -
  assume "count_list t (CHR ''='') \<le> 1"
  then have "length (Split t (CHR ''='')) = 1 \<or> length (Split t (CHR ''='')) = 2"
    by (auto simp: length_Split)
  then show ?thesis
    by (auto simp: parseTag_def length_Suc_conv numeral_2_eq_2 split: list.splits)
qed

lemma parseTag_Inl:
  "1 < count_list t (CHR ''='') \<Longrightarrow> parseTag t = Inl (Fatal (''Unrecognized tag filter '' @ t))"
proof -
  assume "1 < count_list t (CHR ''='')"
  then have "2 < length (Split t (CHR ''=''))" by (simp add: length_Split)
  then show ?thesis by (auto simp: parseTag_def split: list.splits)
qed

lemma parseTags_loop_Inr:
  "\<forall>f\<in>set fs. count_list f (CHR ''='') \<le> 1 \<Longrightarrow>
     \<exists>tags. parseTags_loop fs = Inr tags \<and> map Inr tags = map parseTag fs"
proof (induction fs)
  case Nil
  show ?case by simp
next
  case (Cons f fs)
  then obtain tags where "parseTags_loop fs = Inr tags" "map Inr tags = map parseTag fs" by auto
  moreover from Cons.prems obtain tag where "parseTag f = Inr tag"
    using parseTag_Inr[of f] by auto
  ultimately show ?case by simp
qed

lemma parseTags_loop_Inl:
  "\<exists>f\<in>set fs. 1 < count_list f (CHR ''='') \<Longrightarrow>
     \<exists>f\<in>set fs. 1 < count_list f (CHR ''='') \<and>
        parseTags_loop fs = Inl (Fatal (''Unrecognized tag filter '' @ f))"
proof (induction fs)
  case Nil
  then show ?case by simp
next
  case (Cons f fs)
  show ?case
  proof (cases "1 < count_list f (CHR ''='')")
    case True
    then show ?thesis by (simp add: parseTag_Inl)
  next
    case False
    then obtain tag where t: "parseTag f = Inr tag" using parseTag_Inr[of f] by auto
    from False Cons.prems have "\<exists>f\<in>set fs. 1 < count_list f (CHR ''='')" by auto
    from Cons.IH[OF this] t show ?thesis by auto
  qed
qed

lemma Split_single_empty: "Split s c = [[]] \<longleftrightarrow> s = []"
  by (cases s) (auto split: list.splits simp: Split_not_Nil)

lemma parseTags_nonempty: "tagsRaw \<noteq> [] \<Longrightarrow> parseTags tagsRaw = parseTags_loop (Split tagsRaw (CHR '',''))"
proof -
  assume ne: "tagsRaw \<noteq> []"
  let ?fs = "Split tagsRaw (CHR '','')"
  have "\<not> (hd ?fs = [] \<and> length ?fs = 1)"
  proof
    assume a: "hd ?fs = [] \<and> length ?fs = 1"
    then obtain x where "?fs = [x]" by (cases ?fs) auto
    with a have "?fs = [[]]" by simp
    with ne show False by (simp add: Split_single_empty)
  qed
  then show ?thesis by (auto simp: parseTags_def Let_def)
qed

lemma parseTags_empty: "parseTags [] = Inr []"
  by (simp add: parseTags_def)

lemma main_parse_failure:
  "parseTags (flag_tags fl) = Inl (Fatal msg) \<Longrightarrow>
     main fl env w = \<lparr>calls = [], world = w\<lparr>log := log w @ [msg]\<rparr>, status = Exit1\<rparr>"
  by (simp add: main_def fail_def)

text \<open>
  C9. If a comma-separated field of the tag spec holds more than one \<open>=\<close>, parsing ends
  the process: \<^verbatim>\<open>parseTags\<close> gives no selectors but the fatal message naming such a
  field, and \<^verbatim>\<open>main\<close> exits with status 1 having sent no request. If every field
  holds at most one \<open>=\<close>, parsing succeeds with one selector for each field, in order
  (the empty input has no field and gives no selector): a field without \<open>=\<close> selects
  on the presence of the key, a field \<open>key=value\<close> on the value.
\<close>

theorem parseTags_fields:
  "((\<exists>f\<in>set (Split (flag_tags fl) (CHR '','')). 1 < count_list f (CHR ''='')) \<longrightarrow>
      (\<exists>f\<in>set (Split (flag_tags fl) (CHR '','')). 1 < count_list f (CHR ''='') \<and>
         parseTags (flag_tags fl) = Inl (Fatal (''Unrecognized tag filter '' @ f)) \<and>
         main fl env w =
           \<lparr>calls = [], world = w\<lparr>log := log w @ [''Unrecognized tag filter '' @ f]\<rparr>,
            status = Exit1\<rparr>)) \<and>
   ((\<forall>f\<in>set (Split (flag_tags fl) (CHR '','')). count_list f (CHR ''='') \<le> 1) \<longrightarrow>
      (\<exists>tags. parseTags (flag_tags fl) = Inr tags \<and>
         map Inr tags = map parseTag (fieldsOf (flag_tags fl)))) \<and>
   (\<forall>t. CHR ''='' \<notin> set t \<longrightarrow>
      parseTag t = Inr \<lparr>Tag.Key = t, FilterName = ''tag-key'', FilterValue = t\<rparr>) \<and>
   (\<forall>k v. CHR ''='' \<notin> set k \<longrightarrow> CHR ''='' \<notin> set v \<longrightarrow>
      parseTag (k @ ''='' @ v) = Inr \<lparr>Tag.Key = k, FilterName = ''tag:'' @ k, FilterValue = v\<rparr>)"
proof (intro conjI impI allI)
  assume bad: "\<exists>f\<in>set (Split (flag_tags fl) (CHR '','')). 1 < count_list f (CHR ''='')"
  then have ne: "flag_tags fl \<noteq> []" by auto
  from parseTags_loop_Inl[OF bad] obtain f where
    f: "f \<in> set (Split (flag_tags fl) (CHR '',''))" "1 < count_list f (CHR ''='')"
    and l: "parseTags_loop (Split (flag_tags fl) (CHR '','')) = Inl (Fatal (''Unrecognized tag filter '' @ f))"
    by blast
  from l have p: "parseTags (flag_tags fl) = Inl (Fatal (''Unrecognized tag filter '' @ f))"
    by (simp add: parseTags_nonempty[OF ne])
  from f p main_parse_failure[OF p, of env w]
  show "\<exists>f\<in>set (Split (flag_tags fl) (CHR '','')). 1 < count_list f (CHR ''='') \<and>
         parseTags (flag_tags fl) = Inl (Fatal (''Unrecognized tag filter '' @ f)) \<and>
         main fl env w =
           \<lparr>calls = [], world = w\<lparr>log := log w @ [''Unrecognized tag filter '' @ f]\<rparr>,
            status = Exit1\<rparr>" by blast
next
  assume ok: "\<forall>f\<in>set (Split (flag_tags fl) (CHR '','')). count_list f (CHR ''='') \<le> 1"
  show "\<exists>tags. parseTags (flag_tags fl) = Inr tags \<and>
         map Inr tags = map parseTag (fieldsOf (flag_tags fl))"
  proof (cases "flag_tags fl = []")
    case True
    then show ?thesis by (simp add: parseTags_empty fieldsOf_def)
  next
    case False
    with parseTags_loop_Inr[OF ok] show ?thesis
      by (simp add: parseTags_nonempty fieldsOf_def)
  qed
next
  fix t assume "CHR ''='' \<notin> set t"
  then show "parseTag t = Inr \<lparr>Tag.Key = t, FilterName = ''tag-key'', FilterValue = t\<rparr>"
    by (rule parseTag_key)
next
  fix k v assume "CHR ''='' \<notin> set k" "CHR ''='' \<notin> set v"
  then show "parseTag (k @ ''='' @ v) = Inr \<lparr>Tag.Key = k, FilterName = ''tag:'' @ k, FilterValue = v\<rparr>"
    by (rule parseTag_key_value)
qed

theorem parseTags_fields_witness:
  "parseTags ''Name,a=b=c'' = Inl (Fatal ''Unrecognized tag filter a=b=c'') \<and>
   main (ex_flags\<lparr>flag_tags := ''Name,a=b=c''\<rparr>) ex_env ex_world =
     \<lparr>calls = [], world = ex_world\<lparr>log := [''Unrecognized tag filter a=b=c'']\<rparr>, status = Exit1\<rparr> \<and>
   parseTags ''Application,Environment=Production'' =
     Inr [\<lparr>Tag.Key = ''Application'', FilterName = ''tag-key'', FilterValue = ''Application''\<rparr>,
          \<lparr>Tag.Key = ''Environment'', FilterName = ''tag:Environment'', FilterValue = ''Production''\<rparr>]"
proof -
  let ?bad = "ex_flags\<lparr>flag_tags := ''Name,a=b=c''\<rparr>"
  let ?good = "ex_flags\<lparr>flag_tags := ''Application,Environment=Production''\<rparr>"
  have sb: "Split (flag_tags ?bad) (CHR '','') = [''Name'', ''a=b=c'']" by simp
  have sg: "Split (flag_tags ?good) (CHR '','') = [''Application'', ''Environment=Production'']"
    by simp
  have "\<exists>f\<in>set (Split (flag_tags ?bad) (CHR '','')). 1 < count_list f (CHR ''='')"
    unfolding sb by simp
  with parseTags_fields[of ?bad ex_env ex_world]
  have "\<exists>f\<in>set (Split (flag_tags ?bad) (CHR '','')). 1 < count_list f (CHR ''='') \<and>
         parseTags (flag_tags ?bad) = Inl (Fatal (''Unrecognized tag filter '' @ f)) \<and>
         main ?bad ex_env ex_world =
           \<lparr>calls = [], world = ex_world\<lparr>log := log ex_world @ [''Unrecognized tag filter '' @ f]\<rparr>,
            status = Exit1\<rparr>" by blast
  then have 1: "parseTags ''Name,a=b=c'' = Inl (Fatal ''Unrecognized tag filter a=b=c'') \<and>
     main ?bad ex_env ex_world =
     \<lparr>calls = [], world = ex_world\<lparr>log := [''Unrecognized tag filter a=b=c'']\<rparr>, status = Exit1\<rparr>"
    unfolding sb by (simp add: ex_world_def)
  have "\<forall>f\<in>set (Split (flag_tags ?good) (CHR '','')). count_list f (CHR ''='') \<le> 1"
    unfolding sg by simp
  with parseTags_fields[of ?good ex_env ex_world]
  obtain tags where t: "parseTags (flag_tags ?good) = Inr tags"
    "map Inr tags = map parseTag (fieldsOf (flag_tags ?good))" by blast
  have "map parseTag (fieldsOf (flag_tags ?good)) =
     map Inr [\<lparr>Tag.Key = ''Application'', FilterName = ''tag-key'', FilterValue = ''Application''\<rparr>,
          \<lparr>Tag.Key = ''Environment'', FilterName = ''tag:Environment'', FilterValue = ''Production''\<rparr>]"
    by (simp add: fieldsOf_def parseTag_def)
  with t(2) have "map Inr tags = map (Inr :: Tag \<Rightarrow> Tag result)
         [\<lparr>Tag.Key = ''Application'', FilterName = ''tag-key'', FilterValue = ''Application''\<rparr>,
          \<lparr>Tag.Key = ''Environment'', FilterName = ''tag:Environment'', FilterValue = ''Production''\<rparr>]"
    by simp
  then have "tags = [\<lparr>Tag.Key = ''Application'', FilterName = ''tag-key'', FilterValue = ''Application''\<rparr>,
          \<lparr>Tag.Key = ''Environment'', FilterName = ''tag:Environment'', FilterValue = ''Production''\<rparr>]"
    by (simp only: inj_map_eq_map[OF inj_Inr])
  with t(1) have 2: "parseTags ''Application,Environment=Production'' =
     Inr [\<lparr>Tag.Key = ''Application'', FilterName = ''tag-key'', FilterValue = ''Application''\<rparr>,
          \<lparr>Tag.Key = ''Environment'', FilterName = ''tag:Environment'', FilterValue = ''Production''\<rparr>]"
    by simp
  from 1 2 show ?thesis by blast
qed

section \<open>Properties of the key discovery\<close>

lemma sort_range_order: "range_order ord \<Longrightarrow> sort (ord ks) = sort ks"
  by (rule properties_for_sort) (simp_all add: range_order_def)

lemma keys_update: "fst ` set (AList.update k v al) = insert k (fst ` set al)"
  by (induction al) auto

lemma tagSet_tags_ok:
  "None \<notin> ec2_Tag.Key ` set ts \<Longrightarrow>
     \<exists>acc'. tagSet_tags ts acc = Inr acc' \<and>
       fst ` set acc' = fst ` set acc \<union> set (List.map_filter ec2_Tag.Key ts) \<and>
       (distinct (map fst acc) \<longrightarrow> distinct (map fst acc'))"
proof (induction ts arbitrary: acc)
  case Nil
  show ?case by (simp add: List.map_filter_simps)
next
  case (Cons t ts)
  then obtain k where k: "ec2_Tag.Key t = Some k" by (cases "ec2_Tag.Key t") auto
  from Cons.prems have "None \<notin> ec2_Tag.Key ` set ts" by auto
  from Cons.IH[OF this, of "AList.update k () acc"] k show ?case
    by (auto simp: List.map_filter_simps keys_update distinct_update)
qed

lemma tagSet_instances_ok:
  "\<forall>inst\<in>set instances. None \<notin> ec2_Tag.Key ` set (Tags inst) \<Longrightarrow>
     \<exists>acc'. tagSet_instances instances acc = Inr acc' \<and>
       fst ` set acc' = fst ` set acc \<union> tagKeysOf instances \<and>
       (distinct (map fst acc) \<longrightarrow> distinct (map fst acc'))"
proof (induction instances arbitrary: acc)
  case Nil
  show ?case by (simp add: tagKeysOf_def)
next
  case (Cons inst instances)
  from Cons.prems have "None \<notin> ec2_Tag.Key ` set (Tags inst)" by simp
  from tagSet_tags_ok[OF this, of acc] obtain mid where
    m: "tagSet_tags (Tags inst) acc = Inr mid"
    "fst ` set mid = fst ` set acc \<union> set (List.map_filter ec2_Tag.Key (Tags inst))"
    "distinct (map fst acc) \<longrightarrow> distinct (map fst mid)" by blast
  from Cons.prems have "\<forall>inst\<in>set instances. None \<notin> ec2_Tag.Key ` set (Tags inst)" by simp
  from Cons.IH[OF this, of mid] obtain acc' where
    a: "tagSet_instances instances mid = Inr acc'"
    "fst ` set acc' = fst ` set mid \<union> tagKeysOf instances"
    "distinct (map fst mid) \<longrightarrow> distinct (map fst acc')" by blast
  have "tagKeysOf (inst # instances) =
      set (List.map_filter ec2_Tag.Key (Tags inst)) \<union> tagKeysOf instances"
    by (simp add: tagKeysOf_def)
  with m a show ?case by auto
qed

lemma allTagKeys_sorted:
  assumes "range_order ord" "\<forall>inst\<in>set instances. None \<notin> ec2_Tag.Key ` set (Tags inst)"
  shows "allTagKeys ord instances = Inr (sorted_list_of_set (tagKeysOf instances))"
proof -
  from tagSet_instances_ok[OF assms(2), of "[]"] obtain tagSet where
    t: "tagSet_instances instances [] = Inr tagSet"
    "fst ` set tagSet = tagKeysOf instances" "distinct (map fst tagSet)" by auto
  have "sort (ord (map fst tagSet)) = sort (map fst tagSet)"
    by (rule sort_range_order[OF assms(1)])
  also have "\<dots> = sorted_list_of_set (set (map fst tagSet))"
    using t(3) by (metis distinct_remdups_id sorted_list_of_set_sort_remdups)
  also have "set (map fst tagSet) = tagKeysOf instances" using t(2) by simp
  finally show ?thesis using t(1) by (simp add: allTagKeys_def)
qed

lemma Keys_loop_length: "length keys \<le> length (Keys_loop tags seen keys)"
proof (induction tags arbitrary: seen keys)
  case Nil
  show ?case by simp
next
  case (Cons t tags)
  have "length (keys @ [Tag.Key t]) \<le> length (Keys_loop tags (seen(Tag.Key t := True)) (keys @ [Tag.Key t]))"
    by (rule Cons.IH)
  moreover have "length keys \<le> length (Keys_loop tags seen keys)" by (rule Cons.IH)
  ultimately show ?case by simp
qed

lemma Keys_empty: "Keys tags = [] \<longleftrightarrow> tags = []"
proof (cases tags)
  case Nil
  then show ?thesis by (simp add: Keys_def)
next
  case (Cons t ts)
  have "length [Tag.Key t] \<le> length (Keys_loop ts ((\<lambda>k. False)(Tag.Key t := True)) [Tag.Key t])"
    by (rule Keys_loop_length)
  with Cons show ?thesis by (auto simp: Keys_def)
qed

text \<open>
  C5. For instances whose tags all carry a key, the key discovery returns the union of
  the tag keys of all instances, sorted ascending, whatever the order in which the map
  is ranged over; so instance lists with the same set of tag keys give the same list of
  keys in the same order. \<^verbatim>\<open>main\<close> calls it exactly when the parsed selector sequence is
  empty; otherwise the keys of the selectors are used.
\<close>

theorem allTagKeys_fallback:
  assumes "range_order ord"
    and "\<forall>inst\<in>set instances. None \<notin> ec2_Tag.Key ` set (Tags inst)"
  shows "allTagKeys ord instances = Inr (sorted_list_of_set (tagKeysOf instances)) \<and>
         (\<forall>ord' instances'. range_order ord' \<longrightarrow>
            (\<forall>inst\<in>set instances'. None \<notin> ec2_Tag.Key ` set (Tags inst)) \<longrightarrow>
            tagKeysOf instances' = tagKeysOf instances \<longrightarrow>
            allTagKeys ord' instances' = allTagKeys ord instances) \<and>
         (\<forall>env port tags. discover env port tags instances =
            (case (if tags = [] then allTagKeys (range_tagSet env) instances
                   else Inr (Keys tags)) of
               Inl e \<Rightarrow> Inl e
             | Inr tagKeys \<Rightarrow>
                 (case groupByTags port instances tagKeys of
                    Inl e \<Rightarrow> Inl e
                  | Inr targetGroups \<Rightarrow>
                      marshalTargetGroups (json_MarshalIndent env) (range_targetGroups env)
                        targetGroups)))"
proof (intro conjI allI impI)
  show "allTagKeys ord instances = Inr (sorted_list_of_set (tagKeysOf instances))"
    by (rule allTagKeys_sorted[OF assms])
next
  fix ord' instances'
  assume "range_order ord'" "\<forall>inst\<in>set instances'. None \<notin> ec2_Tag.Key ` set (Tags inst)"
    "tagKeysOf instances' = tagKeysOf instances"
  then show "allTagKeys ord' instances' = allTagKeys ord instances"
    by (simp add: allTagKeys_sorted assms)
next
  fix env port tags
  show "discover env port tags instances =
            (case (if tags = [] then allTagKeys (range_tagSet env) instances
                   else Inr (Keys tags)) of
               Inl e \<Rightarrow> Inl e
             | Inr tagKeys \<Rightarrow>
                 (case groupByTags port instances tagKeys of
                    Inl e \<Rightarrow> Inl e
                  | Inr targetGroups \<Rightarrow>
                      marshalTargetGroups (json_MarshalIndent env) (range_targetGroups env)
                        targetGroups))"
    by (simp add: discover_def Keys_empty)
qed

theorem allTagKeys_fallback_witness:
  "range_order id \<and> range_order rev \<and>
   allTagKeys id [ex_team, ex_region] = Inr [''Region'', ''Team''] \<and>
   allTagKeys rev [ex_region, ex_team] = allTagKeys id [ex_team, ex_region]"
proof -
  have o: "range_order id" "range_order rev" by (simp_all add: range_order_def)
  have w: "\<forall>inst\<in>set [ex_team, ex_region]. None \<notin> ec2_Tag.Key ` set (Tags inst)"
    "\<forall>inst\<in>set [ex_region, ex_team]. None \<notin> ec2_Tag.Key ` set (Tags inst)"
    by (simp_all add: ex_team_def ex_region_def)
  have k: "tagKeysOf [ex_team, ex_region] = {''Team'', ''Region''}"
    "tagKeysOf [ex_region, ex_team] = tagKeysOf [ex_team, ex_region]"
    by (auto simp: tagKeysOf_def ex_team_def ex_region_def List.map_filter_simps)
  have s: "sorted_list_of_set {''Team'', ''Region''} = [''Region'', ''Team'']"
    by (simp add: insort_key.simps)
  note T = allTagKeys_fallback[OF o(1) w(1)]
  from T have 1: "allTagKeys id [ex_team, ex_region] = Inr [''Region'', ''Team'']"
    unfolding k s by blast
  from T o(2) w(2) k(2)
  have 2: "allTagKeys rev [ex_region, ex_team] = allTagKeys id [ex_team, ex_region]"
    by blast
  from o 1 2 show ?thesis by blast
qed

section \<open>Properties of the serializer\<close>

lemmas json_simps = reference_MarshalIndent_def json_array_def json_object_def
  json_TargetGroup_def json_quote_def json_newline_def

lemma fst_sort_key: "map fst (sort_key fst tgs) = sort (map fst tgs)"
  by (rule properties_for_sort[symmetric]) (simp_all add: sorted_sort_key)

lemma lookup_sorted:
  assumes "distinct (map fst tgs)"
  shows "map (map_of tgs) (sort (map fst tgs)) = map (Some \<circ> snd) (sort_key fst tgs)"
proof -
  have "map (map_of tgs) (map fst (sort_key fst tgs)) = map (Some \<circ> snd) (sort_key fst tgs)"
  proof (simp, intro ballI)
    fix x assume "x \<in> set tgs"
    then have "(fst x, snd x) \<in> set tgs" by simp
    with assms show "map_of tgs (fst x) = Some (snd x)" by (rule map_of_is_SomeI)
  qed
  then show ?thesis by (simp only: fst_sort_key)
qed

lemma marshal_range_order:
  "range_order ord \<Longrightarrow> marshalTargetGroups enc ord tgs = marshalTargetGroups enc id tgs"
  by (simp add: marshalTargetGroups_def sort_range_order)

text \<open>
  C6. Whatever the order in which the map is ranged over, the serializer hands the
  encoder every group of the map once, in strictly ascending order of the signatures,
  and asks for an empty prefix and an indent of two spaces; its result is the encoder's
  document. With the reference encoder the group of \<open>|Name=db\<close> stands before that of
  \<open>|Name=web\<close>, each nesting level indented by two more spaces.
\<close>

theorem marshalTargetGroups_sorted:
  assumes "range_order ord" and "distinct (map fst tgs)"
  shows "marshalTargetGroups enc ord tgs =
           (case enc (map (Some \<circ> snd) (sort_key fst tgs)) '''' ''  '' of
              Inl err \<Rightarrow> Inl (Fatal err)
            | Inr b \<Rightarrow> Inr b) \<and>
         sorted_wrt (<) (map fst (sort_key fst tgs)) \<and>
         mset (sort_key fst tgs) = mset tgs"
proof (intro conjI)
  have "sort (ord (map fst tgs)) = sort (map fst tgs)"
    by (rule sort_range_order[OF assms(1)])
  then show "marshalTargetGroups enc ord tgs =
           (case enc (map (Some \<circ> snd) (sort_key fst tgs)) '''' ''  '' of
              Inl err \<Rightarrow> Inl (Fatal err)
            | Inr b \<Rightarrow> Inr b)"
    by (simp add: marshalTargetGroups_def lookup_sorted[OF assms(2)])
  have "distinct (sort (map fst tgs))" using assms(2) by simp
  then show "sorted_wrt (<) (map fst (sort_key fst tgs))"
    by (simp add: strict_sorted_iff fst_sort_key)
  show "mset (sort_key fst tgs) = mset tgs" by simp
qed

theorem marshalTargetGroups_sorted_witness:
  "range_order rev \<and> distinct (map fst ex_web_db) \<and>
   map fst (sort_key fst ex_web_db) = [''|Name=db'', ''|Name=web''] \<and>
   marshalTargetGroups reference_MarshalIndent rev ex_web_db = Inr ex_web_db_document"
proof -
  have o: "range_order rev" by (simp add: range_order_def)
  have d: "distinct (map fst ex_web_db)" by (simp add: ex_web_db_def)
  have s: "sort_key fst ex_web_db =
     [(''|Name=db'', \<lparr>Targets = [''10.0.0.2:80''], Labels = [(''Name'', ''db'')]\<rparr>),
      (''|Name=web'', \<lparr>Targets = [''10.0.0.1:80'', ''10.0.0.3:80''], Labels = [(''Name'', ''web'')]\<rparr>)]"
    by (simp add: ex_web_db_def)
  have e: "reference_MarshalIndent (map (Some \<circ> snd) (sort_key fst ex_web_db)) '''' ''  '' =
      Inr ex_web_db_document"
    unfolding s by (simp add: json_simps ex_web_db_document_def)
  from marshalTargetGroups_sorted[OF o d, of reference_MarshalIndent]
  have "marshalTargetGroups reference_MarshalIndent rev ex_web_db = Inr ex_web_db_document"
    unfolding e by simp
  with o d s show ?thesis by simp
qed

section \<open>Properties of the whole run\<close>

lemma allTagKeys_range_order:
  "range_order ord \<Longrightarrow> allTagKeys ord instances = allTagKeys id instances"
  by (simp add: allTagKeys_def sort_range_order split: sum.splits)

lemma discover_range_order:
  assumes "range_order (range_tagSet env)" "range_order (range_targetGroups env)"
  shows "discover env port tags instances =
         discover (env\<lparr>range_tagSet := id, range_targetGroups := id\<rparr>) port tags instances"
  by (simp add: discover_def allTagKeys_range_order[OF assms(1)]
      marshal_range_order[OF assms(2)] split: sum.splits)

lemma publish_range: "publish (env\<lparr>range_tagSet := a, range_targetGroups := b\<rparr>) = publish env"
  by (intro ext) (simp add: publish_def)

lemma main_range_order:
  assumes "range_order (range_tagSet env)" "range_order (range_targetGroups env)"
  shows "main fl env w = main fl (env\<lparr>range_tagSet := id, range_targetGroups := id\<rparr>) w"
  by (simp add: main_def publish_range discover_range_order[OF assms] Let_def
      split: sum.splits option.splits list.splits prod.splits)

text \<open>
  C8. The only choice the program leaves to its run time is the order in which the two
  maps are ranged over. Two runs that get the same flags and the same answers from the
  services, the encoder and the operating system, and differ in these orders alone, are
  the same run: the same requests, the same document byte for byte, the same exit. The
  same holds for the part of \<^verbatim>\<open>main\<close> from the instances to the document.
\<close>

theorem main_deterministic:
  assumes "range_order (range_tagSet env)" and "range_order (range_targetGroups env)"
    and "range_order ord1" and "range_order ord2"
  shows "discover (env\<lparr>range_tagSet := ord1, range_targetGroups := ord2\<rparr>) port tags instances =
           discover env port tags instances \<and>
         main fl (env\<lparr>range_tagSet := ord1, range_targetGroups := ord2\<rparr>) w = main fl env w"
proof -
  let ?env' = "env\<lparr>range_tagSet := ord1, range_targetGroups := ord2\<rparr>"
  have a: "range_order (range_tagSet ?env')" "range_order (range_targetGroups ?env')"
    using assms(3,4) by simp_all
  have e: "?env'\<lparr>range_tagSet := id, range_targetGroups := id\<rparr> =
           env\<lparr>range_tagSet := id, range_targetGroups := id\<rparr>" by simp
  from discover_range_order[OF a, of port tags instances] discover_range_order[OF assms(1,2), of port tags instances]
    main_range_order[OF a, of fl w] main_range_order[OF assms(1,2), of fl w]
  show ?thesis unfolding e by simp
qed

lemma ex_main: "main ex_flags ex_env ex_world =
     \<lparr>calls = ex_calls, world = ex_world\<lparr>stdout := ex_document\<rparr>, status = Returned\<rparr>"
  by (simp add: main_def ex_flags_def ex_env_def ex_world_def ex_states_def ex_A_def ex_B_def
      parseTags_def parseTag_def filterHealthyInstances_def flattenReservations_def
      discover_def Keys_def run_simps marshalTargetGroups_def json_simps publish_def
      os_Stdout_Write_def ex_document_def ex_calls_def)

theorem main_deterministic_witness:
  "range_order (range_tagSet ex_env) \<and> range_order (range_targetGroups ex_env) \<and>
   range_order id \<and>
   main (ex_flags\<lparr>flag_tags := []\<rparr>) (ex_env\<lparr>range_tagSet := id, range_targetGroups := id\<rparr>)
     ex_world =
   main (ex_flags\<lparr>flag_tags := []\<rparr>) ex_env ex_world \<and>
   main (ex_flags\<lparr>flag_tags := []\<rparr>) ex_env ex_world =
     \<lparr>calls = ex_calls, world = ex_world\<lparr>stdout := ex_document\<rparr>, status = Returned\<rparr>"
proof -
  have o: "range_order (range_tagSet ex_env)" "range_order (range_targetGroups ex_env)"
    "range_order id"
    by (simp_all add: ex_env_def range_order_def)
  have r: "main (ex_flags\<lparr>flag_tags := []\<rparr>) ex_env ex_world =
     \<lparr>calls = ex_calls, world = ex_world\<lparr>stdout := ex_document\<rparr>, status = Returned\<rparr>"
    by (simp add: main_def ex_flags_def ex_env_def ex_world_def ex_states_def ex_A_def ex_B_def
      parseTags_def filterHealthyInstances_def flattenReservations_def
      discover_def Keys_def allTagKeys_def run_simps marshalTargetGroups_def json_simps
      publish_def os_Stdout_Write_def ex_document_def ex_calls_def)
  from main_deterministic[OF o(1) o(2) o(3) o(3), of 0 "[]" "[]" "ex_flags\<lparr>flag_tags := []\<rparr>" ex_world]
  have "main (ex_flags\<lparr>flag_tags := []\<rparr>) (ex_env\<lparr>range_tagSet := id, range_targetGroups := id\<rparr>)
     ex_world = main (ex_flags\<lparr>flag_tags := []\<rparr>) ex_env ex_world" by blast
  with o r show ?thesis by blast
qed

section \<open>Properties of the publisher\<close>

lemma dirname_suffix: "CHR ''/'' \<notin> set sfx \<Longrightarrow> dirname (p @ sfx) = dirname p"
proof -
  assume "CHR ''/'' \<notin> set sfx"
  then have "\<And>x. x \<in> set (rev sfx) \<Longrightarrow> x \<noteq> CHR ''/''" by auto
  then have "dropWhile (\<lambda>c. c \<noteq> CHR ''/'') (rev sfx @ rev p) =
      dropWhile (\<lambda>c. c \<noteq> CHR ''/'') (rev p)"
    by (rule dropWhile_append2)
  then show ?thesis by (simp add: dirname_def)
qed

lemma atomicWriteFile_cases:
  "atomicWriteFile wans rans filename data tmpSuffix w =
     (case wans of
        WriteFails err left \<Rightarrow>
          (w\<lparr>files := (files w)(filename @ tmpSuffix := left)\<rparr>, Some err)
      | WriteOk \<Rightarrow>
          (case rans of
             RenameFails err \<Rightarrow>
               (w\<lparr>files := (files w)(filename @ tmpSuffix \<mapsto> data)\<rparr>, Some err)
           | RenameOk \<Rightarrow>
               (w\<lparr>files := (files w)(filename @ tmpSuffix := None, filename \<mapsto> data)\<rparr>, None)))"
  by (simp add: atomicWriteFile_def ioutil_WriteFile_def os_Rename_def
      split: write_answer.splits rename_answer.splits)

lemma atomicWriteFile_error_keeps_destination:
  assumes "tmpSuffix \<noteq> []"
    and "snd (atomicWriteFile wans rans filename data tmpSuffix w) \<noteq> None"
  shows "files (fst (atomicWriteFile wans rans filename data tmpSuffix w)) filename =
         files w filename"
  using assms
  by (auto simp: atomicWriteFile_cases split: write_answer.splits rename_answer.splits)

text \<open>
  C7. For a destination other than \<open>-\<close> the publisher writes the document to the path
  of the destination with \<open>.new\<close> appended, which lies in the same directory, and then
  renames that file onto the destination. If the write fails, or the rename, the run
  ends with status 1, the error is logged and the destination holds what it held
  before; only the temporary file may be left. If both succeed the destination holds
  the document and the temporary file is gone. Nothing is written to standard output.
  For the destination \<open>-\<close> no file is touched and the document goes to standard
  output. \<^verbatim>\<open>atomicWriteFile\<close> keeps the destination on an error for every suffix that
  is not empty. That the rename is atomic is the contract of the operating system: the
  model takes it as one step.
\<close>

theorem publish_atomic:
  "(dest \<noteq> ''-'' \<longrightarrow>
      publish env dest b w =
        (case write_ans env of
           WriteFails err left \<Rightarrow>
             (w\<lparr>files := (files w)(dest @ ''.new'' := left), log := log w @ [err]\<rparr>, Exit1)
         | WriteOk \<Rightarrow>
             (case rename_ans env of
                RenameFails err \<Rightarrow>
                  (w\<lparr>files := (files w)(dest @ ''.new'' \<mapsto> b), log := log w @ [err]\<rparr>, Exit1)
              | RenameOk \<Rightarrow>
                  (w\<lparr>files := (files w)(dest @ ''.new'' := None, dest \<mapsto> b)\<rparr>, Returned))) \<and>
      dirname (dest @ ''.new'') = dirname dest \<and>
      (snd (publish env dest b w) \<noteq> Returned \<longrightarrow>
         files (fst (publish env dest b w)) dest = files w dest) \<and>
      stdout (fst (publish env dest b w)) = stdout w) \<and>
   (dest = ''-'' \<longrightarrow>
      publish env dest b w =
        (case stdout_ans env of
           StdoutOk \<Rightarrow> (w\<lparr>stdout := stdout w @ b\<rparr>, Returned)
         | StdoutFails err n \<Rightarrow>
             (w\<lparr>stdout := stdout w @ take n b, log := log w @ [err]\<rparr>, Exit1)) \<and>
      files (fst (publish env dest b w)) = files w) \<and>
   (\<forall>wans rans filename tmpSuffix. tmpSuffix \<noteq> [] \<longrightarrow>
      snd (atomicWriteFile wans rans filename b tmpSuffix w) \<noteq> None \<longrightarrow>
      files (fst (atomicWriteFile wans rans filename b tmpSuffix w)) filename = files w filename)"
proof (intro conjI impI allI)
  assume d: "dest \<noteq> ''-''"
  show p: "publish env dest b w =
        (case write_ans env of
           WriteFails err left \<Rightarrow>
             (w\<lparr>files := (files w)(dest @ ''.new'' := left), log := log w @ [err]\<rparr>, Exit1)
         | WriteOk \<Rightarrow>
             (case rename_ans env of
                RenameFails err \<Rightarrow>
                  (w\<lparr>files := (files w)(dest @ ''.new'' \<mapsto> b), log := log w @ [err]\<rparr>, Exit1)
              | RenameOk \<Rightarrow>
                  (w\<lparr>files := (files w)(dest @ ''.new'' := None, dest \<mapsto> b)\<rparr>, Returned)))"
    using d by (simp add: publish_def atomicWriteFile_cases
        split: write_answer.splits rename_answer.splits)
  show "dirname (dest @ ''.new'') = dirname dest"
    by (rule dirname_suffix) simp
  show "stdout (fst (publish env dest b w)) = stdout w"
    unfolding p by (simp split: write_answer.splits rename_answer.splits)
  assume "snd (publish env dest b w) \<noteq> Returned"
  then show "files (fst (publish env dest b w)) dest = files w dest"
    unfolding p by (simp split: write_answer.splits rename_answer.splits)
next
  assume d: "dest = ''-''"
  show p: "publish env dest b w =
        (case stdout_ans env of
           StdoutOk \<Rightarrow> (w\<lparr>stdout := stdout w @ b\<rparr>, Returned)
         | StdoutFails err n \<Rightarrow>
             (w\<lparr>stdout := stdout w @ take n b, log := log w @ [err]\<rparr>, Exit1))"
    using d by (simp add: publish_def os_Stdout_Write_def split: stdout_answer.splits)
  show "files (fst (publish env dest b w)) = files w"
    unfolding p by (simp split: stdout_answer.splits)
next
  fix wans rans filename tmpSuffix
  assume "tmpSuffix \<noteq> []" "snd (atomicWriteFile wans rans filename b tmpSuffix w) \<noteq> None"
  then show "files (fst (atomicWriteFile wans rans filename b tmpSuffix w)) filename =
      files w filename"
    by (rule atomicWriteFile_error_keeps_destination)
qed

theorem publish_atomic_witness:
  "publish ex_env ''out/tg.json'' ''[1]'' ex_old_world =
     (ex_old_world\<lparr>files := [''out/tg.json'' \<mapsto> ''[1]'']\<rparr>, Returned) \<and>
   publish (ex_env\<lparr>write_ans := WriteFails ''disk full'' (Some ''['')\<rparr>) ''out/tg.json'' ''[1]''
       ex_old_world =
     (ex_old_world\<lparr>files := [''out/tg.json'' \<mapsto> ''[]'', ''out/tg.json.new'' \<mapsto> ''[''],
        log := [''disk full'']\<rparr>, Exit1) \<and>
   publish (ex_env\<lparr>rename_ans := RenameFails ''permission denied''\<rparr>) ''out/tg.json'' ''[1]''
       ex_old_world =
     (ex_old_world\<lparr>files := [''out/tg.json'' \<mapsto> ''[]'', ''out/tg.json.new'' \<mapsto> ''[1]''],
        log := [''permission denied'']\<rparr>, Exit1) \<and>
   publish ex_env ''-'' ''[1]'' ex_old_world = (ex_old_world\<lparr>stdout := ''[1]''\<rparr>, Returned) \<and>
   dirname ''out/tg.json.new'' = ''out/'' \<and> dirname ''out/tg.json'' = ''out/''"
proof -
  have n: "''out/tg.json'' \<noteq> ''-''" by simp
  note P = publish_atomic[of "''out/tg.json''" _ "''[1]''" ex_old_world]
  have 1: "publish ex_env ''out/tg.json'' ''[1]'' ex_old_world =
     (ex_old_world\<lparr>files := [''out/tg.json'' \<mapsto> ''[1]'']\<rparr>, Returned)"
    using P[of ex_env] n by (simp add: ex_env_def ex_old_world_def fun_upd_twist)
  have 2: "publish (ex_env\<lparr>write_ans := WriteFails ''disk full'' (Some ''['')\<rparr>) ''out/tg.json'' ''[1]''
       ex_old_world =
     (ex_old_world\<lparr>files := [''out/tg.json'' \<mapsto> ''[]'', ''out/tg.json.new'' \<mapsto> ''[''],
        log := [''disk full'']\<rparr>, Exit1)"
    using P[of "ex_env\<lparr>write_ans := WriteFails ''disk full'' (Some ''['')\<rparr>"] n
    by (simp add: ex_old_world_def)
  have 3: "publish (ex_env\<lparr>rename_ans := RenameFails ''permission denied''\<rparr>) ''out/tg.json'' ''[1]''
       ex_old_world =
     (ex_old_world\<lparr>files := [''out/tg.json'' \<mapsto> ''[]'', ''out/tg.json.new'' \<mapsto> ''[1]''],
        log := [''permission denied'']\<rparr>, Exit1)"
    using P[of "ex_env\<lparr>rename_ans := RenameFails ''permission denied''\<rparr>"] n
    by (simp add: ex_env_def ex_old_world_def)
  have 4: "publish ex_env ''-'' ''[1]'' ex_old_world = (ex_old_world\<lparr>stdout := ''[1]''\<rparr>, Returned)"
    using publish_atomic[of "''-''" ex_env "''[1]''" ex_old_world]
    by (simp add: ex_env_def ex_old_world_def)
  have 5: "dirname ''out/tg.json.new'' = ''out/''" "dirname ''out/tg.json'' = ''out/''"
    by (simp_all add: dirname_def)
  from 1 2 3 4 5 show ?thesis by blast
qed

end
